theory Spec2Isabelle
  imports Complex_Main "HOL-Library.Multiset"
begin

section \<open>Data model\<close>

text \<open>
  The windowed dataset builder \<^verbatim>\<open>load_data\<close> of the stock prediction script, and its
  helper \<^verbatim>\<open>shuffle_in_unison\<close>, as HOL functions.

  A table cell is a missing value (pandas NaN / NaT), a number, or a label of the row
  index (a timestamp). The numbers are kept abstract (\<open>'v\<close>): no theorem below depends
  on floating-point arithmetic on them.
\<close>

datatype ('d, 'v) cell = NaN | Num 'v | Stamp 'd

text \<open>
  A pandas DataFrame: the row index and the columns in their order, each a name and
  its values. pandas keeps every column as long as the index (\<open>rectangular\<close>).
\<close>

record ('d, 'v) dataframe =
  index :: "'d list"
  columns :: "(string \<times> ('d, 'v) cell list) list"

definition rectangular :: "('d, 'v) dataframe \<Rightarrow> bool" where
  "rectangular t = list_all (\<lambda>c. length (snd c) = length (index t)) (columns t)"

text \<open>The exceptions the function can raise; the assertion carries its message.\<close>

datatype error = TypeError | AssertionError string | KeyError | ValueError | IndexError

text \<open>The first argument of \<^verbatim>\<open>load_data\<close>: a str, a DataFrame, or any other object.\<close>

datatype ('d, 'v) ticker = Str string | DataFrame "('d, 'v) dataframe" | Other

text \<open>
  The keyword arguments. \<open>test_size\<close> is a Python float; the model computes with it as
  an exact rational, and only the numeric example of the chronological split depends
  on its value.
\<close>

record config =
  n_steps :: int
  scale :: bool
  shuffle :: bool
  lookup_step :: int
  split_by_date :: bool
  test_size :: rat
  feature_columns :: "string list"

text \<open>
  What the function calls outside the repository, as parameters:
  \<^item> \<open>get_data\<close>: \<^verbatim>\<open>yahoo_fin.stock_info.get_data\<close>, which downloads a table or fails;
  \<^item> \<open>fit\<close>: fitting a \<^verbatim>\<open>MinMaxScaler\<close> on a column; it fails or gives the transform
    then applied to every value of the column;
  \<^item> \<open>float32\<close>: the rounding of \<^verbatim>\<open>astype(np.float32)\<close> on a number;
  \<^item> \<open>random_interval\<close>: numpy's bounded draw, from a generator state \<open>g\<close> and a
    bound \<open>i\<close> to a number and the next state.
\<close>

record ('d, 'v, 'g) library =
  get_data :: "string \<Rightarrow> error + ('d, 'v) dataframe"
  fit :: "('d, 'v) cell list \<Rightarrow> error + (('d, 'v) cell \<Rightarrow> ('d, 'v) cell)"
  float32 :: "'v \<Rightarrow> 'v"
  random_interval :: "'g \<Rightarrow> nat \<Rightarrow> nat \<times> 'g"

text \<open>The dictionary \<^verbatim>\<open>result\<close> that \<^verbatim>\<open>load_data\<close> returns; the key
  \<^verbatim>\<open>column_scaler\<close> is present only when \<open>scale\<close> is set.\<close>

record ('d, 'v) result =
  df :: "('d, 'v) dataframe"
  column_scaler :: "(string \<rightharpoonup> (('d, 'v) cell \<Rightarrow> ('d, 'v) cell)) option"
  last_sequence :: "('d, 'v) cell list list"
  X_train :: "('d, 'v) cell list list list"
  y_train :: "('d, 'v) cell list"
  X_test :: "('d, 'v) cell list list list"
  y_test :: "('d, 'v) cell list"
  test_df :: "('d, 'v) dataframe"

section \<open>DataFrame operations\<close>

definition nrows :: "('d, 'v) dataframe \<Rightarrow> nat" where
  "nrows t = length (index t)"

definition column_names :: "('d, 'v) dataframe \<Rightarrow> string list" where
  "column_names t = map fst (columns t)"

text \<open>\<^verbatim>\<open>df[c]\<close>: the column, or no column of that name (a KeyError).\<close>

definition get_column :: "('d, 'v) dataframe \<Rightarrow> string \<Rightarrow> ('d, 'v) cell list option" where
  "get_column t c = map_of (columns t) c"

text \<open>\<^verbatim>\<open>df[c] = vals\<close>: replaces the column in place, or appends a new last column.\<close>

fun assign :: "string \<Rightarrow> 'a \<Rightarrow> (string \<times> 'a) list \<Rightarrow> (string \<times> 'a) list" where
  "assign c vals [] = [(c, vals)]"
| "assign c vals (p # ps) = (if fst p = c then (c, vals) # ps else p # assign c vals ps)"

definition set_column ::
  "string \<Rightarrow> ('d, 'v) cell list \<Rightarrow> ('d, 'v) dataframe \<Rightarrow> ('d, 'v) dataframe" where
  "set_column c vals t = t\<lparr>columns := assign c vals (columns t)\<rparr>"

text \<open>\<^verbatim>\<open>df[cs].values\<close>: the rows of the selected columns, as a list of rows.\<close>

definition select_values ::
  "('d, 'v) dataframe \<Rightarrow> string list \<Rightarrow> error + ('d, 'v) cell list list" where
  "select_values t cs =
     (case those (map (get_column t) cs) of
        None \<Rightarrow> Inl KeyError
      | Some cols \<Rightarrow> Inr (map (\<lambda>i. map (\<lambda>c. c ! i) cols) [0..<nrows t]))"

text \<open>\<^verbatim>\<open>Series.shift(periods)\<close>: the value of row \<open>i\<close> becomes that of row
  \<open>i - periods\<close>, and NaN where there is no such row.\<close>

definition shift :: "int \<Rightarrow> ('d, 'v) cell list \<Rightarrow> ('d, 'v) cell list" where
  "shift periods xs =
     map (\<lambda>i. let j = int i - periods
              in if 0 \<le> j \<and> j < int (length xs) then xs ! nat j else NaN)
         [0..<length xs]"

text \<open>\<^verbatim>\<open>tail(n)\<close>: the last \<open>n\<close> rows; none for 0; all but the first \<open>-n\<close> for a
  negative \<open>n\<close>.\<close>

definition tail :: "int \<Rightarrow> 'a list \<Rightarrow> 'a list" where
  "tail n rs =
     (if n = 0 then []
      else if 0 < n then drop (length rs - nat n) rs
      else drop (nat (- n)) rs)"

text \<open>The rows at the given positions, in that order.\<close>

definition take_rows :: "('d, 'v) dataframe \<Rightarrow> nat list \<Rightarrow> ('d, 'v) dataframe" where
  "take_rows t pos =
     \<lparr>index = map (\<lambda>i. index t ! i) pos,
      columns = map (\<lambda>c. (fst c, map (\<lambda>i. snd c ! i) pos)) (columns t)\<rparr>"

text \<open>\<^verbatim>\<open>dropna\<close>: keeps the rows with no missing value in any column.\<close>

definition row_has_na :: "('d, 'v) dataframe \<Rightarrow> nat \<Rightarrow> bool" where
  "row_has_na t i = list_ex (\<lambda>c. snd c ! i = NaN) (columns t)"

definition kept_rows :: "('d, 'v) dataframe \<Rightarrow> nat list" where
  "kept_rows t = filter (\<lambda>i. \<not> row_has_na t i) [0..<nrows t]"

definition dropna :: "('d, 'v) dataframe \<Rightarrow> ('d, 'v) dataframe" where
  "dropna t = take_rows t (kept_rows t)"

text \<open>\<^verbatim>\<open>df.loc[labels]\<close> with a list of labels: the rows of each label in turn (all of
  them when the index repeats it); a KeyError when a label is not in the index.\<close>

definition loc ::
  "('d, 'v) dataframe \<Rightarrow> ('d, 'v) cell list \<Rightarrow> error + ('d, 'v) dataframe" where
  "loc t labels =
     (if list_ex (\<lambda>l. l \<notin> set (map Stamp (index t))) labels then Inl KeyError
      else Inr (take_rows t
             (concat (map (\<lambda>l. filter (\<lambda>i. Stamp (index t ! i) = l) [0..<nrows t]) labels))))"

text \<open>\<^verbatim>\<open>t[~t.index.duplicated(keep='first')]\<close>: the first row of every label.\<close>

definition drop_duplicated :: "('d, 'v) dataframe \<Rightarrow> ('d, 'v) dataframe" where
  "drop_duplicated t =
     take_rows t (filter (\<lambda>i. index t ! i \<notin> set (take i (index t))) [0..<nrows t])"

section \<open>Arrays\<close>

text \<open>\<^verbatim>\<open>astype(np.float32)\<close> on one element, and on arrays of one, two and three
  dimensions: a timestamp is not a number.\<close>

fun cast_cell :: "('v \<Rightarrow> 'v) \<Rightarrow> ('d, 'v) cell \<Rightarrow> error + ('d, 'v) cell" where
  "cast_cell f NaN = Inr NaN"
| "cast_cell f (Num v) = Inr (Num (f v))"
| "cast_cell f (Stamp d) = Inl TypeError"


fun traverse :: "('a \<Rightarrow> error + 'b) \<Rightarrow> 'a list \<Rightarrow> error + 'b list" where
  "traverse f [] = Inr []"
| "traverse f (x # xs) =
     (case f x of
        Inl e \<Rightarrow> Inl e
      | Inr y \<Rightarrow> (case traverse f xs of Inl e \<Rightarrow> Inl e | Inr ys \<Rightarrow> Inr (y # ys)))"

definition astype2 ::
  "('v \<Rightarrow> 'v) \<Rightarrow> ('d, 'v) cell list list \<Rightarrow> error + ('d, 'v) cell list list" where
  "astype2 f = traverse (traverse (cast_cell f))"

definition astype3 ::
  "('v \<Rightarrow> 'v) \<Rightarrow> ('d, 'v) cell list list list \<Rightarrow> error + ('d, 'v) cell list list list" where
  "astype3 f = traverse (traverse (traverse (cast_cell f)))"

text \<open>Python's \<^verbatim>\<open>a[:k]\<close> and \<^verbatim>\<open>a[k:]\<close>: a negative \<open>k\<close> counts from the end.\<close>

definition slice_pos :: "int \<Rightarrow> nat \<Rightarrow> nat" where
  "slice_pos k n = (if 0 \<le> k then min (nat k) n else n - nat (- k))"

definition slice_to :: "int \<Rightarrow> 'a list \<Rightarrow> 'a list" where
  "slice_to k xs = take (slice_pos k (length xs)) xs"

definition slice_from :: "int \<Rightarrow> 'a list \<Rightarrow> 'a list" where
  "slice_from k xs = drop (slice_pos k (length xs)) xs"

text \<open>Python's \<^verbatim>\<open>int\<close> of a float truncates towards zero.\<close>

definition py_int :: "rat \<Rightarrow> int" where
  "py_int r = (if 0 \<le> r then \<lfloor>r\<rfloor> else \<lceil>r\<rceil>)"

section \<open>Shuffling\<close>

text \<open>
  \<^verbatim>\<open>np.random.shuffle\<close> is the Fisher-Yates loop
  \<^verbatim>\<open>for i in reversed(range(1, n)): j = random_interval(i); x[i], x[j] = x[j], x[i]\<close>
  on the first axis, for an array of any dimension.
\<close>

fun fisher_yates :: "('g \<Rightarrow> nat \<Rightarrow> nat \<times> 'g) \<Rightarrow> nat \<Rightarrow> 'g \<Rightarrow> 'a list \<Rightarrow> 'a list \<times> 'g" where
  "fisher_yates R 0 g xs = (xs, g)"
| "fisher_yates R (Suc i) g xs =
     (case R g (Suc i) of
        (j, g') \<Rightarrow> fisher_yates R i g' (xs[Suc i := xs ! j, j := xs ! Suc i]))"

definition np_shuffle :: "('g \<Rightarrow> nat \<Rightarrow> nat \<times> 'g) \<Rightarrow> 'g \<Rightarrow> 'a list \<Rightarrow> 'a list \<times> 'g" where
  "np_shuffle R g xs = fisher_yates R (length xs - 1) g xs"

text \<open>\<^verbatim>\<open>shuffle_in_unison(a, b)\<close>: saves the generator state, shuffles \<open>a\<close>, restores
  the state, shuffles \<open>b\<close>. It returns both arrays and the generator state.\<close>

definition shuffle_in_unison ::
  "('g \<Rightarrow> nat \<Rightarrow> nat \<times> 'g) \<Rightarrow> 'g \<Rightarrow> 'a list \<Rightarrow> 'b list \<Rightarrow> 'a list \<times> 'b list \<times> 'g" where
  "shuffle_in_unison R g a b =
     (let state = g in
      case np_shuffle R g a of
        (a', g1) \<Rightarrow>
          (case np_shuffle R state b of
             (b', g2) \<Rightarrow> (a', b', g2)))"

text \<open>What numpy's bounded draw promises: for a bound \<open>i\<close>, a position from 0 to
  \<open>i\<close>.\<close>

definition draws_in_range :: "('g \<Rightarrow> nat \<Rightarrow> nat \<times> 'g) \<Rightarrow> bool" where
  "draws_in_range R = (\<forall>g i. fst (R g i) \<le> i)"

text \<open>
  \<^verbatim>\<open>sklearn.model_selection.train_test_split(X, y, test_size=, shuffle=)\<close> with a
  float \<open>test_size\<close>: it refuses arrays of different lengths, a \<open>test_size\<close> outside
  (0, 1) and an empty train set; the test set has \<open>ceil(test_size * n)\<close> samples. With
  \<open>shuffle\<close> the samples are drawn through a permutation of the positions, the test
  set first; without, the train set is the first samples.
\<close>

definition train_test_split ::
  "('g \<Rightarrow> nat \<Rightarrow> nat \<times> 'g) \<Rightarrow> 'g \<Rightarrow> 'a list \<Rightarrow> 'b list \<Rightarrow> rat \<Rightarrow> bool \<Rightarrow>
     'g \<times> (error + 'a list \<times> 'a list \<times> 'b list \<times> 'b list)" where
  "train_test_split R g X y ts shuf =
     (if length X \<noteq> length y then (g, Inl ValueError)
      else if ts \<le> 0 \<or> 1 \<le> ts then (g, Inl ValueError)
      else
        let n = length X;
            n_test = nat \<lceil>ts * of_nat n\<rceil>;
            n_train = n - n_test
        in if n_train = 0 then (g, Inl ValueError)
           else
             case (if shuf
                   then (case np_shuffle R g [0..<n] of
                           (perm, g') \<Rightarrow> (take n_train (drop n_test perm), take n_test perm, g'))
                   else ([0..<n_train], [n_train..<n_train + n_test], g)) of
               (train, test, g') \<Rightarrow>
                 (g', Inr (map (\<lambda>i. X ! i) train, map (\<lambda>i. X ! i) test,
                           map (\<lambda>i. y ! i) train, map (\<lambda>i. y ! i) test)))"

section \<open>load\_data\<close>

text \<open>Lines 37-38: the assertion on every requested column, in order.\<close>

definition missing_message :: "string \<Rightarrow> string" where
  "missing_message col = [CHR 0x27] @ col @ [CHR 0x27] @ '' does not exist in the dataframe.''"

fun check_columns :: "string list \<Rightarrow> ('d, 'v) dataframe \<Rightarrow> error + unit" where
  "check_columns [] t = Inr ()"
| "check_columns (col # cols) t =
     (if col \<in> set (column_names t) then check_columns cols t
      else Inl (AssertionError (missing_message col)))"

text \<open>Lines 45-48: every feature column is overwritten with its scaled values, and
  its scaler recorded. The table is returned as the loop left it, also on a failure.\<close>

fun scale_columns ::
  "(('d, 'v) cell list \<Rightarrow> error + (('d, 'v) cell \<Rightarrow> ('d, 'v) cell)) \<Rightarrow> string list \<Rightarrow>
     ('d, 'v) dataframe \<Rightarrow> (string \<rightharpoonup> (('d, 'v) cell \<Rightarrow> ('d, 'v) cell)) \<Rightarrow>
     ('d, 'v) dataframe \<times> (error + (string \<rightharpoonup> (('d, 'v) cell \<Rightarrow> ('d, 'v) cell)))" where
  "scale_columns fit_scaler [] t scalers = (t, Inr scalers)"
| "scale_columns fit_scaler (column # cs) t scalers =
     (case get_column t column of
        None \<Rightarrow> (t, Inl KeyError)
      | Some xs \<Rightarrow>
          (case fit_scaler xs of
             Inl e \<Rightarrow> (t, Inl e)
           | Inr scaler \<Rightarrow>
               scale_columns fit_scaler cs (set_column column (map scaler xs) t)
                 (scalers(column \<mapsto> scaler))))"

text \<open>Lines 40-41: the date column, taken from the index when the table has none.\<close>

definition add_date :: "('d, 'v) dataframe \<Rightarrow> ('d, 'v) dataframe" where
  "add_date t =
     (if ''date'' \<notin> set (column_names t) then set_column ''date'' (map Stamp (index t)) t
      else t)"

text \<open>Lines 43-49: the scaling, when asked for.\<close>

definition scale_features ::
  "('d, 'v, 'g) library \<Rightarrow> config \<Rightarrow> ('d, 'v) dataframe \<Rightarrow>
     ('d, 'v) dataframe \<times> (error + (string \<rightharpoonup> (('d, 'v) cell \<Rightarrow> ('d, 'v) cell)) option)" where
  "scale_features L cfg t =
     (if scale cfg
      then (case scale_columns (fit L) (feature_columns cfg) t Map.empty of
              (t', Inl e) \<Rightarrow> (t', Inl e)
            | (t', Inr scalers) \<Rightarrow> (t', Inr (Some scalers)))
      else (t, Inr None))"

text \<open>Line 51: the column \<open>future\<close>, the column \<open>adjclose\<close> moved up by
  \<open>lookup_step\<close> rows.\<close>

definition add_future :: "config \<Rightarrow> ('d, 'v) dataframe \<Rightarrow> error + ('d, 'v) dataframe" where
  "add_future cfg t =
     (case get_column t ''adjclose'' of
        None \<Rightarrow> Inl KeyError
      | Some adjclose \<Rightarrow> Inr (set_column ''future'' (shift (- lookup_step cfg) adjclose) t))"

text \<open>
  Lines 40-53, the part that writes to the table \<open>df\<close>: the date column, the scaling,
  the column \<open>future\<close>, the rows kept for the last sequence (line 52), \<^verbatim>\<open>dropna\<close>
  (line 53). It returns the table as these lines leave it and, unless one of them
  raised, the scalers and the \<^verbatim>\<open>tail(lookup_step)\<close> rows.
\<close>

definition prepare ::
  "('d, 'v, 'g) library \<Rightarrow> config \<Rightarrow> ('d, 'v) dataframe \<Rightarrow>
     ('d, 'v) dataframe \<times>
     (error + (string \<rightharpoonup> (('d, 'v) cell \<Rightarrow> ('d, 'v) cell)) option \<times> ('d, 'v) cell list list)" where
  "prepare L cfg t =
     (case scale_features L cfg (add_date t) of
        (df2, Inl e) \<Rightarrow> (df2, Inl e)
      | (df2, Inr scalers) \<Rightarrow>
          (case add_future cfg df2 of
             Inl e \<Rightarrow> (df2, Inl e)
           | Inr df3 \<Rightarrow>
               (case select_values df3 (feature_columns cfg) of
                  Inl e \<Rightarrow> (df3, Inl e)
                | Inr rows \<Rightarrow> (dropna df3, Inr (scalers, tail (lookup_step cfg) rows)))))"

text \<open>\<^verbatim>\<open>deque(maxlen=n).append\<close>: a deque of length 0 stays empty, a full one drops
  its oldest element.\<close>

definition deque_append :: "nat \<Rightarrow> 'a list \<Rightarrow> 'a \<Rightarrow> 'a list" where
  "deque_append n dq x =
     (if n = 0 then dq
      else if length dq = n then tl dq @ [x]
      else dq @ [x])"

text \<open>Lines 58-61: the loop over the rows and their targets, with the deque
  \<open>sequences\<close> and the list \<open>sequence_data\<close> as its state.\<close>

fun window_loop ::
  "nat \<Rightarrow> ('r \<times> 'c) list \<Rightarrow> 'r list \<Rightarrow> ('r list \<times> 'c) list \<Rightarrow> 'r list \<times> ('r list \<times> 'c) list" where
  "window_loop n [] sequences sequence_data = (sequences, sequence_data)"
| "window_loop n ((entry, target) # rest) sequences sequence_data =
     (let sequences' = deque_append n sequences entry
      in if length sequences' = n
         then window_loop n rest sequences' (sequence_data @ [(sequences', target)])
         else window_loop n rest sequences' sequence_data)"

text \<open>Lines 75-86: the split of the windows \<open>X\<close> and targets \<open>y\<close>.\<close>

definition split_data ::
  "('d, 'v, 'g) library \<Rightarrow> config \<Rightarrow> 'g \<Rightarrow> 'a list \<Rightarrow> 'b list \<Rightarrow>
     'g \<times> (error + 'a list \<times> 'a list \<times> 'b list \<times> 'b list)" where
  "split_data L cfg g X y =
     (if split_by_date cfg then
        let train_samples = py_int ((1 - test_size cfg) * of_nat (length X));
            Xtr = slice_to train_samples X;
            ytr = slice_to train_samples y;
            Xte = slice_from train_samples X;
            yte = slice_from train_samples y
        in if shuffle cfg then
             (case shuffle_in_unison (random_interval L) g Xtr ytr of
                (Xtr', ytr', g1) \<Rightarrow>
                  (case shuffle_in_unison (random_interval L) g1 Xte yte of
                     (Xte', yte', g2) \<Rightarrow> (g2, Inr (Xtr', Xte', ytr', yte'))))
           else (g, Inr (Xtr, Xte, ytr, yte))
      else train_test_split (random_interval L) g X y (test_size cfg) (shuffle cfg))"

text \<open>Line 88, \<^verbatim>\<open>X_test[:, -1, -1]\<close>: the last value of the last row of every test
  window. The test array has the dimensions of \<open>X\<close>, which are three only when there
  is a window and the windows have a row.\<close>

definition anchor_dates :: "'c list list list \<Rightarrow> 'c list list list \<Rightarrow> error + 'c list" where
  "anchor_dates X Xte =
     (case X of
        [] \<Rightarrow> Inl IndexError
      | w # _ \<Rightarrow> if w = [] then Inl IndexError else Inr (map (\<lambda>s. last (last s)) Xte))"

text \<open>
  Lines 55-61 on the table left by \<^verbatim>\<open>dropna\<close>: the deque of at most \<open>n_steps\<close>
  rows (a negative length is refused) and the loop. It gives the deque after the loop
  and the list \<open>sequence_data\<close> of the pairs of a window and its target.
\<close>

definition sliding_windows ::
  "config \<Rightarrow> ('d, 'v) dataframe \<Rightarrow>
     error + ('d, 'v) cell list list \<times> (('d, 'v) cell list list \<times> ('d, 'v) cell) list" where
  "sliding_windows cfg t =
     (if n_steps cfg < 0 then Inl ValueError
      else
        case select_values t (feature_columns cfg @ [''date'']) of
          Inl e \<Rightarrow> Inl e
        | Inr entries \<Rightarrow>
            (case get_column t ''future'' of
               None \<Rightarrow> Inl KeyError
             | Some targets \<Rightarrow>
                 Inr (window_loop (nat (n_steps cfg)) (zip entries targets) [] [])))"

text \<open>Lines 91-92: a window without its date column, as float32.\<close>

definition features_only ::
  "('d, 'v, 'g) library \<Rightarrow> config \<Rightarrow> ('d, 'v) cell list list list \<Rightarrow>
     error + ('d, 'v) cell list list list" where
  "features_only L cfg X =
     astype3 (float32 L) (map (map (take (length (feature_columns cfg)))) X)"

text \<open>
  Lines 55-94, which no longer write to \<open>df\<close>: \<open>original\<close> is the copy taken at line
  35, \<open>t\<close> the table after \<^verbatim>\<open>dropna\<close>, \<open>last_rows\<close> the rows of line 52.
\<close>

definition build ::
  "('d, 'v, 'g) library \<Rightarrow> config \<Rightarrow> ('d, 'v) dataframe \<Rightarrow> ('d, 'v) dataframe \<Rightarrow>
     (string \<rightharpoonup> (('d, 'v) cell \<Rightarrow> ('d, 'v) cell)) option \<Rightarrow> ('d, 'v) cell list list \<Rightarrow> 'g \<Rightarrow>
     'g \<times> (error + ('d, 'v) result)" where
  "build L cfg original t scalers last_rows g =
     (case sliding_windows cfg t of
        Inl e \<Rightarrow> (g, Inl e)
      | Inr (sequences, sequence_data) \<Rightarrow>
     (case astype2 (float32 L)
             (map (take (length (feature_columns cfg))) sequences @ last_rows) of
        Inl e \<Rightarrow> (g, Inl e)
      | Inr last_seq \<Rightarrow>
     (case split_data L cfg g (map fst sequence_data) (map snd sequence_data) of
        (g', Inl e) \<Rightarrow> (g', Inl e)
      | (g', Inr (Xtr, Xte, ytr, yte)) \<Rightarrow>
     (case anchor_dates (map fst sequence_data) Xte of
        Inl e \<Rightarrow> (g', Inl e)
      | Inr dates \<Rightarrow>
     (case loc original dates of
        Inl e \<Rightarrow> (g', Inl e)
      | Inr rows \<Rightarrow>
     (case features_only L cfg Xtr of
        Inl e \<Rightarrow> (g', Inl e)
      | Inr Xtr' \<Rightarrow>
     (case features_only L cfg Xte of
        Inl e \<Rightarrow> (g', Inl e)
      | Inr Xte' \<Rightarrow>
          (g', Inr \<lparr>df = original, column_scaler = scalers, last_sequence = last_seq,
                    X_train = Xtr', y_train = ytr, X_test = Xte', y_test = yte,
                    test_df = drop_duplicated rows\<rparr>))))))))"

text \<open>
  The body of \<^verbatim>\<open>load_data\<close> on the table \<open>df\<close> (lines 34-94). It returns the table as
  the call leaves it, the generator state, and the exception or the result.
\<close>

definition load_data_on ::
  "('d, 'v, 'g) library \<Rightarrow> config \<Rightarrow> ('d, 'v) dataframe \<Rightarrow> 'g \<Rightarrow>
     ('d, 'v) dataframe \<times> 'g \<times> (error + ('d, 'v) result)" where
  "load_data_on L cfg t g =
     (let original = t
      in case check_columns (feature_columns cfg) t of
           Inl e \<Rightarrow> (t, g, Inl e)
         | Inr _ \<Rightarrow>
             (case prepare L cfg t of
                (t', Inl e) \<Rightarrow> (t', g, Inl e)
              | (t', Inr (scalers, last_rows)) \<Rightarrow>
                  (case build L cfg original t' scalers last_rows g of
                     (g', r) \<Rightarrow> (t', g', r))))"

text \<open>
  \<^verbatim>\<open>load_data\<close> (lines 25-94). A DataFrame argument is not copied: \<open>df\<close> is the
  caller's own table, and the first component of the value is that table after the
  call (for a str, the downloaded table; nothing for any other argument).
\<close>

definition load_data ::
  "('d, 'v, 'g) library \<Rightarrow> ('d, 'v) ticker \<Rightarrow> config \<Rightarrow> 'g \<Rightarrow>
     ('d, 'v) dataframe option \<times> 'g \<times> (error + ('d, 'v) result)" where
  "load_data L ticker cfg g =
     (case ticker of
        Str s \<Rightarrow>
          (case get_data L s of
             Inl e \<Rightarrow> (None, g, Inl e)
           | Inr t \<Rightarrow> (case load_data_on L cfg t g of (t', g', r) \<Rightarrow> (Some t', g', r)))
      | DataFrame t \<Rightarrow> (case load_data_on L cfg t g of (t', g', r) \<Rightarrow> (Some t', g', r))
      | Other \<Rightarrow> (None, g, Inl TypeError))"

section \<open>Example inputs\<close>

text \<open>A min-max scaler on rationals, a generator that counts its draws, and a table
  of six days with one feature column: the inputs at which the theorems are run.\<close>

definition minmax_fit ::
  "(nat, rat) cell list \<Rightarrow> error + ((nat, rat) cell \<Rightarrow> (nat, rat) cell)" where
  "minmax_fit xs =
     (case concat (map (\<lambda>c. case c of Num v \<Rightarrow> [v] | _ \<Rightarrow> []) xs) of
        [] \<Rightarrow> Inl ValueError
      | v # vs \<Rightarrow>
          let lo = fold min vs v; hi = fold max vs v;
              range = (if hi = lo then 1 else hi - lo)
          in Inr (\<lambda>c. case c of Num x \<Rightarrow> Num ((x - lo) / range) | _ \<Rightarrow> c))"

definition example_library :: "(nat, rat, nat) library" where
  "example_library =
     \<lparr>get_data = (\<lambda>s. Inl ValueError), fit = minmax_fit, float32 = (\<lambda>v. v),
      random_interval = (\<lambda>g i. (g mod (i + 1), g + 1))\<rparr>"

definition example_table :: "(nat, rat) dataframe" where
  "example_table =
     \<lparr>index = [10, 11, 12, 13, 14, 15],
      columns = [(''adjclose'', [Num 1, Num 2, Num 3, Num 4, Num 5, Num 6])]\<rparr>"

definition example_config :: config where
  "example_config =
     \<lparr>n_steps = 2, scale = True, shuffle = False, lookup_step = 1, split_by_date = True,
      test_size = 1 / 5, feature_columns = [''adjclose'']\<rparr>"



section \<open>The loop over the rows\<close>

lemma check_columns_find:
  "check_columns cs t =
     (case find (\<lambda>c. c \<notin> set (column_names t)) cs of
        None \<Rightarrow> Inr ()
      | Some c \<Rightarrow> Inl (AssertionError (missing_message c)))"
  by (induction cs) auto

lemma check_columns_ok: "check_columns cs t = Inr u \<longleftrightarrow> set cs \<subseteq> set (column_names t)"
  by (induction cs) auto

lemma traverse_length: "traverse f xs = Inr ys \<Longrightarrow> length ys = length xs"
  by (induction xs arbitrary: ys) (auto split: sum.splits)

text \<open>One more row at the end of the input is one more turn of the loop.\<close>

lemma window_loop_snoc:
  "window_loop n (ps @ [(e, t)]) sq sd =
     (case window_loop n ps sq sd of
        (sq1, sd1) \<Rightarrow>
          if length (deque_append n sq1 e) = n
          then (deque_append n sq1 e, sd1 @ [(deque_append n sq1 e, t)])
          else (deque_append n sq1 e, sd1))"
  by (induction n ps sq sd rule: window_loop.induct) (auto simp: Let_def)

text \<open>The loop in closed form, for a window of at least one row: the deque ends as the
  last \<open>n\<close> rows, and window \<open>k\<close> is the rows \<open>k\<close> to \<open>k + n - 1\<close> with the target of
  row \<open>k + n - 1\<close>.\<close>

lemma window_loop_closed:
  assumes "0 < n"
  shows "window_loop n ps [] [] =
     (drop (length ps - n) (map fst ps),
      map (\<lambda>k. (take n (drop k (map fst ps)), map snd ps ! (k + n - 1)))
          [0..<length ps + 1 - n])"
proof (induction ps rule: rev_induct)
  case Nil
  show ?case using assms by simp
next
  case (snoc p ps)
  obtain e t where p: "p = (e, t)" by (cases p)
  let ?m = "length ps"
  let ?es = "map fst ps"
  let ?sq1 = "drop (?m - n) ?es"
  have dq: "deque_append n ?sq1 e = drop (Suc ?m - n) (?es @ [e])"
  proof (cases "n \<le> ?m")
    case True
    then have "length ?sq1 = n" by simp
    moreover have "tl ?sq1 = drop (Suc ?m - n) ?es" using True
      by (simp add: drop_Suc[symmetric] tl_drop Suc_diff_le)
    ultimately show ?thesis using assms True by (simp add: deque_append_def)
  next
    case False
    then have "length ?sq1 \<noteq> n" by simp
    then show ?thesis using assms False by (simp add: deque_append_def)
  qed
  have len: "length (drop (Suc ?m - n) (?es @ [e])) = n \<longleftrightarrow> n \<le> Suc ?m"
    using assms by auto
  let ?D = "drop (Suc ?m - n) (?es @ [e])"
  let ?SD = "map (\<lambda>k. (take n (drop k ?es), map snd ps ! (k + n - 1))) [0..<?m + 1 - n]"
  have step: "window_loop n (ps @ [(e, t)]) [] [] =
                (if n \<le> Suc ?m then (?D, ?SD @ [(?D, t)]) else (?D, ?SD))"
    unfolding window_loop_snoc snoc.IH by (simp only: dq len prod.case)
  show ?case
  proof (cases "n \<le> Suc ?m")
    case True
    define F where
      "F = (\<lambda>k. (take n (drop k (map fst (ps @ [p]))), map snd (ps @ [p]) ! (k + n - 1)))"
    have up: "[0..<length (ps @ [p]) + 1 - n] = [0..<Suc ?m - n] @ [Suc ?m - n]"
      using True by (simp add: Suc_diff_le)
    have old: "map F [0..<Suc ?m - n] = ?SD"
      unfolding F_def using assms by (auto simp: nth_append p)
    have new: "F (Suc ?m - n) = (?D, t)"
      unfolding F_def using True by (simp add: p nth_append)
    have "map F [0..<length (ps @ [p]) + 1 - n] = ?SD @ [(?D, t)]"
      unfolding up by (simp add: old new)
    then have "map (\<lambda>k. (take n (drop k (map fst (ps @ [p]))), map snd (ps @ [p]) ! (k + n - 1)))
            [0..<length (ps @ [p]) + 1 - n] = ?SD @ [(?D, t)]"
      unfolding F_def .
    moreover have "drop (length (ps @ [p]) - n) (map fst (ps @ [p])) = ?D"
      by (simp add: p)
    ultimately show ?thesis using step True unfolding p by simp
  next
    case False
    have "[0..<length (ps @ [p]) + 1 - n] = []" "[0..<?m + 1 - n] = []"
      using False by simp_all
    moreover have "drop (length (ps @ [p]) - n) (map fst (ps @ [p])) = ?D"
      by (simp add: p)
    ultimately show ?thesis using step False unfolding p by simp
  qed
qed

text \<open>A deque of length 0 stays empty and is "full" at every row.\<close>

lemma window_loop_zero:
  "window_loop 0 ps [] sd = ([], sd @ map (\<lambda>p. ([], snd p)) ps)"
  by (induction ps arbitrary: sd) (auto simp: deque_append_def)

section \<open>Shuffling and splitting keep the lengths\<close>

lemma fisher_yates_length: "length (fst (fisher_yates R i g xs)) = length xs"
  by (induction i arbitrary: g xs) (auto split: prod.splits)

lemma np_shuffle_length: "np_shuffle R g xs = (ys, g') \<Longrightarrow> length ys = length xs"
  using fisher_yates_length [of R "length xs - 1" g xs] by (simp add: np_shuffle_def)

lemma shuffle_in_unison_length:
  "shuffle_in_unison R g a b = (a', b', g') \<Longrightarrow> length a' = length a \<and> length b' = length b"
  by (auto simp: shuffle_in_unison_def Let_def split: prod.splits dest: np_shuffle_length)

lemma slice_lengths:
  "length (slice_to k xs) = slice_pos k (length xs)"
  "length (slice_from k xs) = length xs - slice_pos k (length xs)"
  "slice_pos k n \<le> n"
  by (auto simp: slice_to_def slice_from_def slice_pos_def)

lemma slice_append: "slice_to k xs @ slice_from k xs = xs"
  by (simp add: slice_to_def slice_from_def)

lemma train_test_split_length:
  assumes "train_test_split R g X y ts shuf = (g', Inr (Xtr, Xte, ytr, yte))"
  shows "length Xtr = length ytr \<and> length Xte = length yte \<and>
         length Xtr + length Xte = length X \<and> length X = length y"
proof -
  let ?n = "length X"
  let ?n_test = "nat \<lceil>ts * of_nat ?n\<rceil>"
  from assms have ok: "length X = length y" "?n - ?n_test \<noteq> 0"
    by (auto simp: train_test_split_def Let_def split: if_splits)
  show ?thesis
  proof (cases shuf)
    case True
    obtain perm g1 where p: "np_shuffle R g [0..<?n] = (perm, g1)"
      by (cases "np_shuffle R g [0..<?n]")
    then have "length perm = ?n" by (auto dest: np_shuffle_length)
    with assms ok True p show ?thesis
      by (auto simp: train_test_split_def Let_def split: if_splits)
  next
    case False
    with assms ok show ?thesis
      by (auto simp: train_test_split_def Let_def split: if_splits)
  qed
qed

lemma split_data_length:
  assumes "split_data L cfg g X y = (g', Inr (Xtr, Xte, ytr, yte))" and "length X = length y"
  shows "length Xtr = length ytr \<and> length Xte = length yte \<and>
         length Xtr + length Xte = length X"
proof (cases "split_by_date cfg")
  case False
  with assms show ?thesis
    using train_test_split_length [of "random_interval L" g X y "test_size cfg" "shuffle cfg"]
    by (simp add: split_data_def)
next
  case True
  let ?k = "py_int ((1 - test_size cfg) * of_nat (length X))"
  show ?thesis
  proof (cases "shuffle cfg")
    case False
    with True assms show ?thesis
      using slice_lengths(3) [of ?k "length y"]
      by (auto simp: split_data_def Let_def slice_lengths)
  next
    case sh: True
    obtain a1 b1 g1 where s1:
      "shuffle_in_unison (random_interval L) g (slice_to ?k X) (slice_to ?k y) = (a1, b1, g1)"
      by (metis prod_cases3)
    obtain a2 b2 g2 where s2:
      "shuffle_in_unison (random_interval L) g1 (slice_from ?k X) (slice_from ?k y) = (a2, b2, g2)"
      by (metis prod_cases3)
    from assms True sh s1 s2 have eq: "Xtr = a1" "ytr = b1" "Xte = a2" "yte = b2"
      by (auto simp: split_data_def Let_def)
    show ?thesis
      using shuffle_in_unison_length [OF s1] shuffle_in_unison_length [OF s2] assms(2)
        slice_lengths(3) [of ?k "length y"]
      by (simp add: eq slice_lengths)
  qed
qed

lemma features_only_length: "features_only L cfg X = Inr X' \<Longrightarrow> length X' = length X"
  by (auto simp: features_only_def astype3_def dest: traverse_length)

lemma prepare_Inr:
  assumes "prepare L cfg t = (t', Inr (sc, lr))"
  obtains df2 df3 rows where
    "scale_features L cfg (add_date t) = (df2, Inr sc)"
    "add_future cfg df2 = Inr df3"
    "select_values df3 (feature_columns cfg) = Inr rows"
    "t' = dropna df3" "lr = tail (lookup_step cfg) rows"
  using assms by (auto simp: prepare_def split: prod.splits sum.splits)

lemma build_Inr:
  assumes "build L cfg original t sc lr g = (g', Inr res)"
  obtains sq sd Xtr Xte ytr yte dates rows where
    "sliding_windows cfg t = Inr (sq, sd)"
    "astype2 (float32 L) (map (take (length (feature_columns cfg))) sq @ lr) =
       Inr (last_sequence res)"
    "split_data L cfg g (map fst sd) (map snd sd) = (g', Inr (Xtr, Xte, ytr, yte))"
    "anchor_dates (map fst sd) Xte = Inr dates"
    "loc original dates = Inr rows"
    "features_only L cfg Xtr = Inr (X_train res)"
    "features_only L cfg Xte = Inr (X_test res)"
    "y_train res = ytr" "y_test res = yte" "df res = original" "column_scaler res = sc"
    "test_df res = drop_duplicated rows"
  using assms by (auto simp: build_def split: prod.splits sum.splits)

lemma load_data_on_Inr:
  assumes "load_data_on L cfg t g = (t', g', Inr res)"
  obtains sc lr where
    "set (feature_columns cfg) \<subseteq> set (column_names t)"
    "prepare L cfg t = (t', Inr (sc, lr))"
    "build L cfg t t' sc lr g = (g', Inr res)"
  using assms
  by (auto simp: load_data_on_def check_columns_ok split: prod.splits sum.splits)

section \<open>Columns, rows and the shape of the table\<close>

lemma map_of_assign: "map_of (assign c v al) = (map_of al)(c \<mapsto> v)"
  by (induction al) (auto simp: fun_eq_iff)

lemma fst_set_assign: "fst ` set (assign c v al) = insert c (fst ` set al)"
  by (induction al) auto

lemma set_assign_subset: "set (assign c v al) \<subseteq> insert (c, v) (set al)"
  by (induction al) auto

lemma get_column_set_column:
  "get_column (set_column c v t) c' = (if c' = c then Some v else get_column t c')"
  by (simp add: get_column_def set_column_def map_of_assign)

lemma names_set_column: "set (column_names (set_column c v t)) = insert c (set (column_names t))"
  by (simp add: column_names_def set_column_def fst_set_assign)

lemma nrows_set_column: "nrows (set_column c v t) = nrows t"
  by (simp add: nrows_def set_column_def)

lemma index_set_column: "index (set_column c v t) = index t"
  by (simp add: set_column_def)

lemma get_column_Some_iff: "(\<exists>xs. get_column t c = Some xs) \<longleftrightarrow> c \<in> set (column_names t)"
proof -
  have "(\<exists>xs. get_column t c = Some xs) \<longleftrightarrow> get_column t c \<noteq> None" by auto
  then show ?thesis by (simp add: get_column_def column_names_def map_of_eq_None_iff)
qed

lemma get_column_in_columns: "get_column t c = Some xs \<Longrightarrow> (c, xs) \<in> set (columns t)"
  by (simp add: get_column_def map_of_SomeD)

lemma rectangular_set_column:
  "rectangular t \<Longrightarrow> length v = nrows t \<Longrightarrow> rectangular (set_column c v t)"
  using set_assign_subset [of c v "columns t"]
  by (auto simp: rectangular_def set_column_def nrows_def list_all_iff)

lemma rectangular_get_column:
  "rectangular t \<Longrightarrow> get_column t c = Some xs \<Longrightarrow> length xs = nrows t"
  by (auto simp: rectangular_def nrows_def list_all_iff dest!: get_column_in_columns)

lemma rectangular_take_rows: "rectangular (take_rows t pos)"
  by (simp add: rectangular_def take_rows_def list_all_iff)

lemma nrows_take_rows: "nrows (take_rows t pos) = length pos"
  by (simp add: nrows_def take_rows_def)

lemma names_take_rows: "column_names (take_rows t pos) = column_names t"
  by (simp add: column_names_def take_rows_def comp_def)

lemma get_column_take_rows:
  "get_column (take_rows t pos) c = map_option (\<lambda>xs. map (\<lambda>i. xs ! i) pos) (get_column t c)"
proof -
  have "map_of (map (\<lambda>c. (fst c, map (\<lambda>i. snd c ! i) pos)) al) c =
        map_option (\<lambda>xs. map (\<lambda>i. xs ! i) pos) (map_of al c)" for al :: "(string \<times> ('a, 'b) cell list) list"
    by (induction al) auto
  then show ?thesis by (simp add: get_column_def take_rows_def)
qed

lemma those_map_Some_iff: "(\<exists>ys. those (map f xs) = Some ys) \<longleftrightarrow> (\<forall>x \<in> set xs. f x \<noteq> None)"
  by (induction xs) (auto split: option.splits)

lemma select_values_ok_iff:
  "(\<exists>rows. select_values t cs = Inr rows) \<longleftrightarrow> set cs \<subseteq> set (column_names t)"
proof -
  have "(\<exists>rows. select_values t cs = Inr rows) \<longleftrightarrow> (\<exists>ys. those (map (get_column t) cs) = Some ys)"
    by (auto simp: select_values_def split: option.splits)
  also have "\<dots> \<longleftrightarrow> (\<forall>c \<in> set cs. get_column t c \<noteq> None)"
    by (rule those_map_Some_iff)
  also have "\<dots> \<longleftrightarrow> set cs \<subseteq> set (column_names t)"
    using get_column_Some_iff [of t] by auto
  finally show ?thesis .
qed

lemma select_values_length: "select_values t cs = Inr rows \<Longrightarrow> length rows = nrows t"
  by (auto simp: select_values_def split: option.splits)

lemma scale_columns_facts:
  "scale_columns f cs t sc = (t', r) \<Longrightarrow>
     set (column_names t') = set (column_names t) \<and> index t' = index t \<and>
     (rectangular t \<longrightarrow> rectangular t')"
proof (induction cs arbitrary: t sc)
  case Nil
  then show ?case by simp
next
  case (Cons c cs)
  show ?case
  proof (cases "get_column t c")
    case None
    with Cons.prems show ?thesis by simp
  next
    case (Some xs)
    show ?thesis
    proof (cases "f xs")
      case (Inl e)
      with Cons.prems Some show ?thesis by simp
    next
      case (Inr s)
      let ?t1 = "set_column c (map s xs) t"
      from Cons.prems Some Inr have "scale_columns f cs ?t1 (sc(c \<mapsto> s)) = (t', r)" by simp
      from Cons.IH [OF this] have
        "set (column_names t') = set (column_names ?t1)" "index t' = index ?t1"
        "rectangular ?t1 \<longrightarrow> rectangular t'" by auto
      moreover have "c \<in> set (column_names t)" using Some get_column_Some_iff by blast
      moreover have "rectangular t \<Longrightarrow> rectangular ?t1"
        using Some by (auto intro!: rectangular_set_column dest: rectangular_get_column)
      ultimately show ?thesis
        by (auto simp: names_set_column index_set_column)
    qed
  qed
qed

lemma scale_features_facts:
  "scale_features L cfg t = (t', r) \<Longrightarrow>
     set (column_names t') = set (column_names t) \<and> index t' = index t \<and>
     (rectangular t \<longrightarrow> rectangular t')"
  by (auto simp: scale_features_def split: if_splits prod.splits sum.splits
           dest: scale_columns_facts)

lemma add_date_facts:
  "''date'' \<in> set (column_names (add_date t))"
  "set (column_names t) \<subseteq> set (column_names (add_date t))"
  "index (add_date t) = index t"
  "rectangular t \<Longrightarrow> rectangular (add_date t)"
  by (auto simp: add_date_def names_set_column index_set_column nrows_def
           intro!: rectangular_set_column)

lemma length_shift: "length (shift p xs) = length xs"
  by (simp add: shift_def)

lemma add_future_facts:
  assumes "add_future cfg t = Inr t'"
  shows "set (column_names t') = insert ''future'' (set (column_names t))"
    and "index t' = index t"
    and "rectangular t \<Longrightarrow> rectangular t'"
  using assms
  by (auto simp: add_future_def names_set_column index_set_column length_shift
           split: option.splits intro!: rectangular_set_column dest: rectangular_get_column)

text \<open>Lines 55-61 do not raise on the table that lines 40-53 leave.\<close>

lemma sliding_windows_after_prepare:
  assumes "prepare L cfg t = (t', Inr (sc, lr))" and "0 \<le> n_steps cfg"
  shows "\<exists>sq sd. sliding_windows cfg t' = Inr (sq, sd)"
proof -
  from assms(1) obtain df2 df3 rows where
    s: "scale_features L cfg (add_date t) = (df2, Inr sc)" and
    f: "add_future cfg df2 = Inr df3" and
    v: "select_values df3 (feature_columns cfg) = Inr rows" and
    t': "t' = dropna df3"
    by (rule prepare_Inr)
  have names: "column_names t' = column_names df3"
    by (simp add: t' dropna_def names_take_rows)
  have "''date'' \<in> set (column_names df2)"
    using scale_features_facts [OF s] add_date_facts(1) [of t] by simp
  then have d: "''date'' \<in> set (column_names t')" "''future'' \<in> set (column_names t')"
    using add_future_facts(1) [OF f] names by auto
  have "set (feature_columns cfg) \<subseteq> set (column_names t')"
    using select_values_ok_iff [of df3 "feature_columns cfg"] v names by auto
  with d have "set (feature_columns cfg @ [''date'']) \<subseteq> set (column_names t')" by simp
  then obtain entries where "select_values t' (feature_columns cfg @ [''date'']) = Inr entries"
    using select_values_ok_iff [of t' "feature_columns cfg @ [''date'']"] by blast
  moreover obtain targets where "get_column t' ''future'' = Some targets"
    using d(2) get_column_Some_iff by blast
  ultimately show ?thesis
    using assms(2) by (cases "window_loop (nat (n_steps cfg)) (zip entries targets) [] []")
      (simp add: sliding_windows_def)
qed

lemma prepare_rectangular: "prepare L cfg t = (t', Inr x) \<Longrightarrow> rectangular t'"
  by (cases x) (auto elim!: prepare_Inr simp: dropna_def rectangular_take_rows)

text \<open>The number of windows and the length of the deque after the loop.\<close>

lemma sliding_windows_count:
  assumes "sliding_windows cfg t = Inr (sq, sd)" and "rectangular t"
  shows "0 \<le> n_steps cfg"
    and "length sd = (if n_steps cfg = 0 then nrows t else nrows t + 1 - nat (n_steps cfg))"
    and "length sq = min (nat (n_steps cfg)) (nrows t)"
    and "n_steps cfg = 0 \<Longrightarrow> \<forall>p \<in> set sd. fst p = []"
    and "0 < n_steps cfg \<Longrightarrow> \<forall>p \<in> set sd. length (fst p) = nat (n_steps cfg)"
proof -
  from assms(1) show n0: "0 \<le> n_steps cfg"
    by (auto simp: sliding_windows_def split: if_splits)
  from assms(1) n0 obtain entries targets where
    e: "select_values t (feature_columns cfg @ [''date'']) = Inr entries" and
    g: "get_column t ''future'' = Some targets" and
    w: "window_loop (nat (n_steps cfg)) (zip entries targets) [] [] = (sq, sd)"
    by (auto simp: sliding_windows_def split: sum.splits option.splits)
  define ps where "ps = zip entries targets"
  have len: "length ps = nrows t"
    using select_values_length [OF e] rectangular_get_column [OF assms(2) g]
    by (simp add: ps_def)
  have zero: "sq = [] \<and> sd = map (\<lambda>p. ([], snd p)) ps" if "n_steps cfg = 0"
    using w that by (simp add: window_loop_zero ps_def)
  have pos: "sq = drop (length ps - nat (n_steps cfg)) (map fst ps) \<and>
             sd = map (\<lambda>k. (take (nat (n_steps cfg)) (drop k (map fst ps)),
                            map snd ps ! (k + nat (n_steps cfg) - 1)))
                      [0..<length ps + 1 - nat (n_steps cfg)]" if "0 < n_steps cfg"
  proof -
    from that have "0 < nat (n_steps cfg)" by simp
    from window_loop_closed [OF this, of ps] w show ?thesis
      by (simp add: ps_def)
  qed
  show "length sd = (if n_steps cfg = 0 then nrows t else nrows t + 1 - nat (n_steps cfg))"
    using zero pos n0 len by (cases "n_steps cfg = 0") auto
  show "length sq = min (nat (n_steps cfg)) (nrows t)"
    using zero pos n0 len by (cases "n_steps cfg = 0") auto
  show "n_steps cfg = 0 \<Longrightarrow> \<forall>p \<in> set sd. fst p = []"
    using zero by auto
  show "0 < n_steps cfg \<Longrightarrow> \<forall>p \<in> set sd. length (fst p) = nat (n_steps cfg)"
    using pos len by auto
qed

section \<open>What a returning call has gone through\<close>

lemma load_data_Inr:
  assumes "load_data L tk cfg g = (st, g', Inr res)"
  obtains t t' where "tk = DataFrame t \<or> (\<exists>s. tk = Str s \<and> get_data L s = Inr t)"
    "st = Some t'" "load_data_on L cfg t g = (t', g', Inr res)"
  using assms by (auto simp: load_data_def split: ticker.splits sum.splits prod.splits)

lemma load_data_source:
  assumes "tk = DataFrame t \<or> (tk = Str s \<and> get_data L s = Inr t)"
  shows "load_data L tk cfg g =
           (case load_data_on L cfg t g of (t', g', r) \<Rightarrow> (Some t', g', r))"
  using assms by (auto simp: load_data_def)

lemma anchor_dates_Inr:
  "anchor_dates X Xte = Inr dates \<Longrightarrow> X \<noteq> [] \<and> hd X \<noteq> [] \<and> dates = map (\<lambda>s. last (last s)) Xte"
  by (auto simp: anchor_dates_def split: list.splits if_splits)

text \<open>What a call that returns has gone through.\<close>

lemma load_data_on_success:
  assumes "load_data_on L cfg t g = (t', g', Inr res)"
  obtains sc lr sq sd Xtr Xte ytr yte where
    "prepare L cfg t = (t', Inr (sc, lr))"
    "sliding_windows cfg t' = Inr (sq, sd)"
    "0 < n_steps cfg" "sd \<noteq> []" "nat (n_steps cfg) \<le> nrows t'"
    "length sd = nrows t' + 1 - nat (n_steps cfg)"
    "length sq = nat (n_steps cfg)"
    "astype2 (float32 L) (map (take (length (feature_columns cfg))) sq @ lr) =
       Inr (last_sequence res)"
    "split_data L cfg g (map fst sd) (map snd sd) = (g', Inr (Xtr, Xte, ytr, yte))"
    "anchor_dates (map fst sd) Xte = Inr (map (\<lambda>s. last (last s)) Xte)"
    "features_only L cfg Xtr = Inr (X_train res)"
    "features_only L cfg Xte = Inr (X_test res)"
    "y_train res = ytr" "y_test res = yte" "df res = t"
proof -
  from assms obtain sc lr where
    p: "prepare L cfg t = (t', Inr (sc, lr))" and
    b: "build L cfg t t' sc lr g = (g', Inr res)"
    by (rule load_data_on_Inr)
  from b obtain sq sd Xtr Xte ytr yte dates rows where
    w: "sliding_windows cfg t' = Inr (sq, sd)" and
    l: "astype2 (float32 L) (map (take (length (feature_columns cfg))) sq @ lr) =
          Inr (last_sequence res)" and
    s: "split_data L cfg g (map fst sd) (map snd sd) = (g', Inr (Xtr, Xte, ytr, yte))" and
    a: "anchor_dates (map fst sd) Xte = Inr dates" and
    f: "features_only L cfg Xtr = Inr (X_train res)"
       "features_only L cfg Xte = Inr (X_test res)" and
    r: "y_train res = ytr" "y_test res = yte" "df res = t"
    by (rule build_Inr)
  have rect: "rectangular t'" using p by (rule prepare_rectangular)
  note c = sliding_windows_count [OF w rect]
  from anchor_dates_Inr [OF a] have ne: "sd \<noteq> []" "fst (hd sd) \<noteq> []"
    and d: "dates = map (\<lambda>s. last (last s)) Xte"
    by (auto simp: hd_map)
  from ne have "hd sd \<in> set sd" by simp
  with c(4) ne(2) have "n_steps cfg \<noteq> 0" by blast
  with c(1) have n: "0 < n_steps cfg" by simp
  with c(2) have len: "length sd = nrows t' + 1 - nat (n_steps cfg)" by simp
  with ne(1) have m: "nat (n_steps cfg) \<le> nrows t'" by (cases "nat (n_steps cfg) \<le> nrows t'") auto
  with c(3) have "length sq = nat (n_steps cfg)" by simp
  with that p w n ne(1) m len l s a f r d show ?thesis by blast
qed


section \<open>A missing feature column\<close>

text \<open>
  Claim C8. When a requested feature column is not a column of the table (one passed
  by the caller, or one downloaded), the call raises the assertion error whose message
  names a requested column that is absent; no result is returned, and the table and
  the generator are as before the call.
\<close>

theorem missing_feature_column_fails:
  assumes "tk = DataFrame t \<or> (tk = Str s \<and> get_data L s = Inr t)"
    and "\<not> set (feature_columns cfg) \<subseteq> set (column_names t)"
  shows "\<exists>c. c \<in> set (feature_columns cfg) \<and> c \<notin> set (column_names t) \<and>
             load_data L tk cfg g = (Some t, g, Inl (AssertionError (missing_message c)))"
proof -
  from assms(2) obtain c where
    c: "find (\<lambda>c. c \<notin> set (column_names t)) (feature_columns cfg) = Some c"
    by (cases "find (\<lambda>c. c \<notin> set (column_names t)) (feature_columns cfg)")
       (auto simp: find_None_iff)
  then have "c \<in> set (feature_columns cfg)" "c \<notin> set (column_names t)"
    by (auto simp: find_Some_iff)
  moreover have "load_data_on L cfg t g = (t, g, Inl (AssertionError (missing_message c)))"
    by (simp add: load_data_on_def check_columns_find c)
  then have "load_data L tk cfg g = (Some t, g, Inl (AssertionError (missing_message c)))"
    using assms(1) by (auto simp: load_data_def)
  ultimately show ?thesis by blast
qed

theorem missing_feature_column_fails_witness:
  "load_data example_library (DataFrame example_table)
     (example_config\<lparr>feature_columns := [''adjclose'', ''not_a_real_column'']\<rparr>) 0 =
   (Some example_table, 0,
    Inl (AssertionError ([CHR 0x27] @ ''not_a_real_column'' @ [CHR 0x27] @
                         '' does not exist in the dataframe.'')))"
  using missing_feature_column_fails [of "DataFrame example_table" example_table "[]"
      example_library "example_config\<lparr>feature_columns := [''adjclose'', ''not_a_real_column'']\<rparr>" 0]
  by (auto simp: example_table_def example_config_def column_names_def missing_message_def)

section \<open>The number of windows\<close>

text \<open>
  Claim C1. Let \<open>t'\<close> be the table that lines 40-53 leave (the rows that remain after
  \<^verbatim>\<open>dropna\<close> are the usable rows), for a window of at least one row. Then the loop of
  lines 55-61 does not raise and emits \<open>max 0 (usable_rows - n_steps + 1)\<close> pairs of a
  window and a target; and in every call on this table that returns, from a caller's
  table or a downloaded one, the train and the test split together have that many
  windows.
\<close>

theorem pair_count:
  assumes "prepare L cfg t = (t', Inr (sc, lr))" and "0 < n_steps cfg"
  shows "\<exists>sq sd. sliding_windows cfg t' = Inr (sq, sd) \<and>
           int (length sd) = max 0 (int (nrows t') - n_steps cfg + 1) \<and>
           (\<forall>tk g st g' res.
              (tk = DataFrame t \<or> (\<exists>s. tk = Str s \<and> get_data L s = Inr t)) \<and>
              load_data L tk cfg g = (st, g', Inr res) \<longrightarrow>
              length (X_train res) + length (X_test res) = length sd)"
proof -
  from assms obtain sq sd where w: "sliding_windows cfg t' = Inr (sq, sd)"
    using sliding_windows_after_prepare [of L cfg t t' sc lr] by auto
  have rect: "rectangular t'" using assms(1) by (rule prepare_rectangular)
  from sliding_windows_count(2) [OF w rect] assms(2)
  have len: "int (length sd) = max 0 (int (nrows t') - n_steps cfg + 1)" by auto
  have "length (X_train res) + length (X_test res) = length sd"
    if tk: "tk = DataFrame t \<or> (\<exists>s. tk = Str s \<and> get_data L s = Inr t)"
      and ok: "load_data L tk cfg g = (st, g', Inr res)" for tk g st g' res
  proof -
    from tk ok obtain t2 where on: "load_data_on L cfg t g = (t2, g', Inr res)"
      by (auto simp: load_data_def split: prod.splits)
    then obtain sc2 lr2 sq2 sd2 Xtr Xte ytr yte where
      p2: "prepare L cfg t = (t2, Inr (sc2, lr2))" and
      w2: "sliding_windows cfg t2 = Inr (sq2, sd2)" and
      s: "split_data L cfg g (map fst sd2) (map snd sd2) = (g', Inr (Xtr, Xte, ytr, yte))" and
      f: "features_only L cfg Xtr = Inr (X_train res)"
         "features_only L cfg Xte = Inr (X_test res)"
      by (rule load_data_on_success)
    from p2 assms(1) have "t2 = t'" by simp
    with w w2 have "sd2 = sd" by simp
    with split_data_length [OF s] features_only_length [OF f(1)] features_only_length [OF f(2)]
    show ?thesis by simp
  qed
  with w len show ?thesis by blast
qed


theorem pair_count_witness:
  "\<exists>t' sc lr sq sd.
     prepare example_library example_config example_table = (t', Inr (sc, lr)) \<and>
     sliding_windows example_config t' = Inr (sq, sd) \<and>
     nrows t' = 5 \<and> n_steps example_config = 2 \<and> length sd = 4 \<and>
     (case load_data example_library (DataFrame example_table) example_config 0 of
        (_, _, Inr res) \<Rightarrow> length (X_train res) + length (X_test res) = 4
      | _ \<Rightarrow> False)"
proof -
  let ?X = "load_data example_library (DataFrame example_table) example_config 0"
  have "case prepare example_library example_config example_table of
          (t', Inr _) \<Rightarrow> nrows t' = 5 | _ \<Rightarrow> False"
    by code_simp
  then obtain t' sc lr where
    p: "prepare example_library example_config example_table = (t', Inr (sc, lr))" and
    n: "nrows t' = 5"
    by (auto split: prod.splits sum.splits)
  have n2: "n_steps example_config = 2" by (simp add: example_config_def)
  then have "0 < n_steps example_config" by simp
  from pair_count [OF p this] obtain sq sd where
    w: "sliding_windows example_config t' = Inr (sq, sd)" and
    len: "int (length sd) = max 0 (int (nrows t') - n_steps example_config + 1)" and
    sum: "\<forall>tk g st g' res.
            (tk = DataFrame example_table \<or>
             (\<exists>s. tk = Str s \<and> get_data example_library s = Inr example_table)) \<and>
            load_data example_library tk example_config g = (st, g', Inr res) \<longrightarrow>
            length (X_train res) + length (X_test res) = length sd"
    by (elim exE conjE) (rule that)
  from len n n2 have l4: "length sd = 4" by simp
  have "case ?X of (_, _, Inr _) \<Rightarrow> True | _ \<Rightarrow> False" by code_simp
  then obtain st g' res where eq: "?X = (st, g', Inr res)"
    by (auto split: prod.splits sum.splits)
  from sum have "DataFrame example_table = DataFrame example_table \<and> ?X = (st, g', Inr res) \<longrightarrow>
      length (X_train res) + length (X_test res) = length sd"
    by (elim allE [of _ "DataFrame example_table"] allE [of _ 0] allE [of _ st]
        allE [of _ g'] allE [of _ res]) simp
  with eq l4 have "length (X_train res) + length (X_test res) = 4" by simp
  with p w n n2 l4 eq have
    "prepare example_library example_config example_table = (t', Inr (sc, lr)) \<and>
     sliding_windows example_config t' = Inr (sq, sd) \<and>
     nrows t' = 5 \<and> n_steps example_config = 2 \<and> length sd = 4 \<and>
     (case ?X of (_, _, Inr res) \<Rightarrow> length (X_train res) + length (X_test res) = 4
      | _ \<Rightarrow> False)"
    by simp
  then show ?thesis by (intro exI)
qed

section \<open>Too few rows for one window\<close>

text \<open>
  Claim C9. When the rows left by lines 40-53 of a call on a caller's table are fewer
  than \<open>n_steps\<close>, the call raises and returns no result, whatever the split policy, and
  the generator state is as before the call. When the assertions of lines 37-38 pass and
  lines 40-53 run to the end, no window is emitted and the exception is: with
  \<open>split_by_date\<close> the IndexError of line 88, which indexes an array of one dimension
  with three indices; otherwise the ValueError of \<^verbatim>\<open>train_test_split\<close> on empty arrays;
  or, before either, a TypeError of the cast of line 64.
\<close>

theorem undersized_input_fails:
  assumes "prepare L cfg t = (t', r)" and "int (nrows t') < n_steps cfg"
  shows "\<exists>st e. load_data L (DataFrame t) cfg g = (st, g, Inl e) \<and>
           (set (feature_columns cfg) \<subseteq> set (column_names t) \<and> (\<exists>x. r = Inr x) \<longrightarrow>
              st = Some t' \<and>
              (e = TypeError \<or> e = (if split_by_date cfg then IndexError else ValueError)))"
proof (cases "check_columns (feature_columns cfg) t")
  case (Inl e)
  then have "\<not> set (feature_columns cfg) \<subseteq> set (column_names t)"
    using check_columns_ok [of "feature_columns cfg" t "()"] by auto
  with Inl show ?thesis by (simp add: load_data_def load_data_on_def)
next
  case chk: (Inr u)
  show ?thesis
  proof (cases r)
    case (Inl e)
    with assms chk show ?thesis by (simp add: load_data_def load_data_on_def)
  next
    case (Inr x)
    obtain sc lr where x: "x = (sc, lr)" by (cases x)
    have p: "prepare L cfg t = (t', Inr (sc, lr))" using assms(1) Inr x by simp
    have on: "load_data L (DataFrame t) cfg g =
                (case build L cfg t t' sc lr g of (g', r) \<Rightarrow> (Some t', g', r))"
      using chk p by (simp add: load_data_def load_data_on_def split: prod.splits)
    have rect: "rectangular t'" using p by (rule prepare_rectangular)
    from assms(2) have "0 \<le> n_steps cfg" by simp
    then obtain sq sd where w: "sliding_windows cfg t' = Inr (sq, sd)"
      using sliding_windows_after_prepare [OF p] by auto
    from sliding_windows_count(2) [OF w rect] assms(2)
    have sd: "sd = []" by (auto split: if_splits)
    have rnd: "split_data L cfg g ([] :: ('a, 'b) cell list list list)
                  ([] :: ('a, 'b) cell list) = (g, Inl ValueError)" if "\<not> split_by_date cfg"
      using that by (simp add: split_data_def train_test_split_def)
    have chr: "split_data L cfg g ([] :: ('a, 'b) cell list list list) ([] :: ('a, 'b) cell list)
                  = (g, Inr ([], [], [], []))" if "split_by_date cfg"
      using that
      by (simp add: split_data_def slice_to_def slice_from_def shuffle_in_unison_def
          np_shuffle_def)
    let ?ls = "astype2 (float32 L) (map (take (length (feature_columns cfg))) sq @ lr)"
    have cast: "?ls = Inl TypeError \<or> (\<exists>y. ?ls = Inr y)"
    proof (cases ?ls)
      case (Inl e)
      have te: "traverse f xs = Inl e \<Longrightarrow> (\<forall>x e. f x = Inl e \<longrightarrow> e = TypeError) \<Longrightarrow>
                  e = TypeError" for f :: "'x \<Rightarrow> error + 'y" and xs e
        by (induction xs) (auto split: sum.splits)
      have c: "cast_cell f c = Inl e \<Longrightarrow> e = TypeError" for f and c :: "('a, 'b) cell" and e
        by (cases c) auto
      from Inl have "e = TypeError"
        unfolding astype2_def by (rule te) (auto dest: te c)
      with Inl show ?thesis by simp
    next
      case (Inr y)
      then show ?thesis by blast
    qed
    have b: "build L cfg t t' sc lr g = (g, Inl TypeError) \<or>
             build L cfg t t' sc lr g =
               (g, Inl (if split_by_date cfg then IndexError else ValueError))"
    proof (cases "split_by_date cfg")
      case True
      from cast chr [OF True] True show ?thesis
        by (auto simp: build_def w sd anchor_dates_def)
    next
      case False
      from cast rnd [OF False] False show ?thesis
        by (auto simp: build_def w sd)
    qed
    then show ?thesis by (auto simp: on)
  qed
qed

theorem undersized_input_fails_witness:
  "int (nrows (fst (prepare example_library (example_config\<lparr>n_steps := 6\<rparr>) example_table)))
     < n_steps (example_config\<lparr>n_steps := 6\<rparr>) \<and>
   (\<exists>st. load_data example_library (DataFrame example_table)
              (example_config\<lparr>n_steps := 6\<rparr>) 0 = (st, 0, Inl IndexError))"
proof -
  let ?cfg = "example_config\<lparr>n_steps := 6\<rparr>"
  let ?p = "prepare example_library ?cfg example_table"
  have small: "int (nrows (fst ?p)) < n_steps ?cfg" by code_simp
  have cols: "set (feature_columns ?cfg) \<subseteq> set (column_names example_table)"
    by (simp add: example_config_def example_table_def column_names_def)
  have ok: "case snd ?p of Inr _ \<Rightarrow> True | _ \<Rightarrow> False" by code_simp
  then have r: "\<exists>x. snd ?p = Inr x" by (auto split: sum.splits)
  have sb: "split_by_date ?cfg" by (simp add: example_config_def)
  have "?p = (fst ?p, snd ?p)" by simp
  from undersized_input_fails [OF this small, of 0] obtain st e where
    eq: "load_data example_library (DataFrame example_table) ?cfg 0 = (st, 0, Inl e)" and
    imp: "set (feature_columns ?cfg) \<subseteq> set (column_names example_table) \<and>
          (\<exists>x. snd ?p = Inr x) \<longrightarrow>
            st = Some (fst ?p) \<and>
            (e = TypeError \<or> e = (if split_by_date ?cfg then IndexError else ValueError))"
    by (elim exE conjE) (rule that)
  from imp cols r sb have e: "e = TypeError \<or> e = IndexError" by simp
  have "case load_data example_library (DataFrame example_table) ?cfg 0 of
          (_, _, Inl TypeError) \<Rightarrow> False | _ \<Rightarrow> True"
    by code_simp
  with eq e have "e = IndexError" by auto
  with eq have "\<exists>st. load_data example_library (DataFrame example_table) ?cfg 0 =
      (st, 0, Inl IndexError)"
    by blast
  with small show ?thesis by (intro conjI)
qed

section \<open>Windows and targets go together\<close>

text \<open>
  Claim C10. In every call that returns, under either split policy and with or without
  shuffling, the train split has as many windows as targets, and so has the test split.
\<close>

theorem splits_length_consistent:
  assumes "load_data L tk cfg g = (st, g', Inr res)"
  shows "length (X_train res) = length (y_train res) \<and>
         length (X_test res) = length (y_test res)"
proof -
  from assms obtain t t' where "load_data_on L cfg t g = (t', g', Inr res)"
    by (rule load_data_Inr)
  then obtain sd Xtr Xte ytr yte where
    s: "split_data L cfg g (map fst sd) (map snd sd) = (g', Inr (Xtr, Xte, ytr, yte))" and
    f: "features_only L cfg Xtr = Inr (X_train res)"
       "features_only L cfg Xte = Inr (X_test res)" and
    r: "y_train res = ytr" "y_test res = yte"
    by (rule load_data_on_success)
  from split_data_length [OF s] features_only_length [OF f(1)] features_only_length [OF f(2)] r
  show ?thesis by simp
qed


theorem splits_length_consistent_witness:
  "(case load_data example_library (DataFrame example_table)
           (example_config\<lparr>split_by_date := False, shuffle := True\<rparr>) 7 of
      (_, _, Inr res) \<Rightarrow>
        length (X_train res) = length (y_train res) \<and> length (X_test res) = length (y_test res)
    | _ \<Rightarrow> False)"
proof -
  let ?X = "load_data example_library (DataFrame example_table)
              (example_config\<lparr>split_by_date := False, shuffle := True\<rparr>) 7"
  have "case ?X of (_, _, Inr _) \<Rightarrow> True | _ \<Rightarrow> False" by code_simp
  then obtain st g' res where eq: "?X = (st, g', Inr res)"
    by (auto split: prod.splits sum.splits)
  from splits_length_consistent [OF eq] show ?thesis by (simp add: eq)
qed

section \<open>The last sequence\<close>

lemma kept_rows_facts:
  "i \<in> set (kept_rows t) \<Longrightarrow> i < nrows t \<and> (\<forall>c \<in> set (columns t). snd c ! i \<noteq> NaN)"
  by (auto simp: kept_rows_def row_has_na_def list_ex_iff)

text \<open>A row that dropna keeps has a future value: the row lookup_step further exists.\<close>

lemma kept_row_future:
  assumes f: "add_future cfg df2 = Inr df3" and rect: "rectangular df2"
    and i: "i \<in> set (kept_rows df3)"
  obtains adjclose where
    "get_column df2 ''adjclose'' = Some adjclose" "length adjclose = nrows df3"
    "get_column df3 ''future'' = Some (shift (- lookup_step cfg) adjclose)"
    "i < nrows df3" "0 \<le> int i + lookup_step cfg" "int i + lookup_step cfg < int (nrows df3)"
    "shift (- lookup_step cfg) adjclose ! i = adjclose ! nat (int i + lookup_step cfg)"
proof -
  from f obtain adjclose where
    a: "get_column df2 ''adjclose'' = Some adjclose" and
    d: "df3 = set_column ''future'' (shift (- lookup_step cfg) adjclose) df2"
    by (auto simp: add_future_def split: option.splits)
  have n: "nrows df3 = nrows df2" by (simp add: d nrows_set_column)
  have len: "length adjclose = nrows df3"
    using rectangular_get_column [OF rect a] n by simp
  have g: "get_column df3 ''future'' = Some (shift (- lookup_step cfg) adjclose)"
    by (simp add: d get_column_set_column)
  from kept_rows_facts [OF i] have lt: "i < nrows df3"
    and nn: "\<forall>c \<in> set (columns df3). snd c ! i \<noteq> NaN" by auto
  from get_column_in_columns [OF g] nn
  have "shift (- lookup_step cfg) adjclose ! i \<noteq> NaN" by fastforce
  with lt len have r: "0 \<le> int i + lookup_step cfg \<and> int i + lookup_step cfg < int (nrows df3)"
    by (auto simp: shift_def Let_def split: if_splits)
  with lt len have "shift (- lookup_step cfg) adjclose ! i = adjclose ! nat (int i + lookup_step cfg)"
    by (simp add: shift_def Let_def)
  with that a len g lt r show ?thesis by blast
qed

lemma prepare_rectangular_stages:
  assumes "scale_features L cfg (add_date t) = (df2, r)" and "rectangular t"
  shows "rectangular df2" "index df2 = index t"
  using scale_features_facts [OF assms(1)] add_date_facts(3,4) [of t] assms(2) by auto

lemma astype2_length: "astype2 f xs = Inr ys \<Longrightarrow> length ys = length xs"
  by (auto simp: astype2_def dest: traverse_length)

lemma length_tail_nonneg:
  "0 \<le> n \<Longrightarrow> nat n \<le> length rs \<Longrightarrow> length (tail n rs) = nat n"
  by (auto simp: tail_def)


text \<open>
  Claim C3, as amended. Line 63 puts the \<open>n_steps\<close> rows of the deque before the
  \<^verbatim>\<open>tail(lookup_step)\<close> rows of line 52: for a rectangular table and a
  \<open>lookup_step\<close> of at least 0, the last sequence of a call that returns has
  \<open>n_steps + lookup_step\<close> rows. It has \<open>n_steps\<close> rows only for \<open>lookup_step = 0\<close>:
  on the example table, with \<open>n_steps = 2\<close> and \<open>lookup_step = 1\<close>, it has 3 rows.
\<close>

theorem last_sequence_rows:
  assumes "tk = DataFrame t \<or> (tk = Str s \<and> get_data L s = Inr t)"
    and "rectangular t"
    and "0 \<le> lookup_step cfg"
    and "load_data L tk cfg g = (st, g', Inr res)"
  shows "int (length (last_sequence res)) = n_steps cfg + lookup_step cfg"
proof -
  from assms(1,4) obtain t' where on: "load_data_on L cfg t g = (t', g', Inr res)"
    by (auto simp: load_data_def split: prod.splits)
  then obtain sc lr sq sd where
    p: "prepare L cfg t = (t', Inr (sc, lr))" and
    n: "0 < n_steps cfg" "nat (n_steps cfg) \<le> nrows t'" and
    sq: "length sq = nat (n_steps cfg)" and
    ls: "astype2 (float32 L) (map (take (length (feature_columns cfg))) sq @ lr) =
           Inr (last_sequence res)"
    by (rule load_data_on_success)
  from p obtain df2 df3 rows where
    s: "scale_features L cfg (add_date t) = (df2, Inr sc)" and
    f: "add_future cfg df2 = Inr df3" and
    v: "select_values df3 (feature_columns cfg) = Inr rows" and
    t': "t' = dropna df3" and lr: "lr = tail (lookup_step cfg) rows"
    by (rule prepare_Inr)
  have rect: "rectangular df2" using s assms(2) by (rule prepare_rectangular_stages)
  have "nrows t' = length (kept_rows df3)" by (simp add: t' dropna_def nrows_take_rows)
  with n have "kept_rows df3 \<noteq> []" by auto
  then obtain i where "i \<in> set (kept_rows df3)" by (cases "kept_rows df3") auto
  then have "int i + lookup_step cfg < int (nrows df3)"
    by (rule kept_row_future [OF f rect])
  then have "nat (lookup_step cfg) \<le> length rows"
    using assms(3) select_values_length [OF v] by simp
  with assms(3) have "length lr = nat (lookup_step cfg)"
    by (simp add: lr length_tail_nonneg)
  with astype2_length [OF ls] sq n(1) assms(3) show ?thesis by simp
qed

theorem last_sequence_rows_counterexample:
  "(case load_data example_library (DataFrame example_table) example_config 0 of
      (_, _, Inr res) \<Rightarrow> length (last_sequence res) = 3 \<and> n_steps example_config = 2
    | _ \<Rightarrow> False)"
  by code_simp

theorem last_sequence_rows_witness:
  "rectangular example_table \<and> 0 \<le> lookup_step example_config \<and>
   (case load_data example_library (DataFrame example_table) example_config 0 of
      (_, _, Inr res) \<Rightarrow>
        int (length (last_sequence res)) = n_steps example_config + lookup_step example_config
    | _ \<Rightarrow> False)"
proof -
  let ?X = "load_data example_library (DataFrame example_table) example_config 0"
  have r: "rectangular example_table" by code_simp
  have l: "0 \<le> lookup_step example_config" by (simp add: example_config_def)
  have "case ?X of (_, _, Inr _) \<Rightarrow> True | _ \<Rightarrow> False" by code_simp
  then obtain st g' res where eq: "?X = (st, g', Inr res)"
    by (auto split: prod.splits sum.splits)
  have "DataFrame example_table = DataFrame example_table \<or>
        (DataFrame example_table = Str [] \<and> get_data example_library [] = Inr example_table)"
    by simp
  from last_sequence_rows [OF this r l eq] r l show ?thesis by (simp add: eq)
qed


section \<open>The caller's table\<close>

text \<open>
  Claim C4, as amended. Line 30 binds \<open>df\<close> to the caller's table itself, and lines
  40-53 write to it. After a call that returns, the caller's table is the table these
  lines leave: it has the columns \<open>date\<close> and \<open>future\<close>, its feature columns are
  scaled when \<open>scale\<close> is set, and its rows with a missing value are gone. What is unchanged is the copy of
  line 35, returned under the key \<open>df\<close>: it is the table as it was passed. On the
  example table the caller's table after the call differs from the one passed.
\<close>

theorem caller_table_rewritten:
  assumes "load_data L (DataFrame t) cfg g = (st, g', Inr res)"
  shows "df res = t \<and>
         (\<exists>t' lr. st = Some t' \<and> prepare L cfg t = (t', Inr (column_scaler res, lr)) \<and>
            ''date'' \<in> set (column_names t') \<and> ''future'' \<in> set (column_names t'))"
proof -
  from assms obtain t' where st: "st = Some t'" and
    on: "load_data_on L cfg t g = (t', g', Inr res)"
    by (auto simp: load_data_def split: prod.splits)
  from on obtain sc lr where
    p: "prepare L cfg t = (t', Inr (sc, lr))" and
    b: "build L cfg t t' sc lr g = (g', Inr res)"
    by (rule load_data_on_Inr)
  from b have r: "df res = t" "column_scaler res = sc" by (auto elim: build_Inr)
  from p obtain df2 df3 where
    s: "scale_features L cfg (add_date t) = (df2, Inr sc)" and
    f: "add_future cfg df2 = Inr df3" and t': "t' = dropna df3"
    by (rule prepare_Inr)
  have "''date'' \<in> set (column_names df2)"
    using scale_features_facts [OF s] add_date_facts(1) [of t] by simp
  then have "''date'' \<in> set (column_names t')" "''future'' \<in> set (column_names t')"
    using add_future_facts(1) [OF f] by (auto simp: t' dropna_def names_take_rows)
  with st p r show ?thesis by auto
qed

theorem caller_table_unchanged_counterexample:
  "(case load_data example_library (DataFrame example_table) example_config 0 of
      (Some t', _, Inr res) \<Rightarrow> t' \<noteq> example_table
    | _ \<Rightarrow> False)"
  by code_simp

theorem caller_table_rewritten_witness:
  "(case load_data example_library (DataFrame example_table) example_config 0 of
      (Some t', _, Inr res) \<Rightarrow>
        df res = example_table \<and>
        fst (prepare example_library example_config example_table) = t' \<and>
        ''date'' \<in> set (column_names t') \<and> ''future'' \<in> set (column_names t')
    | _ \<Rightarrow> False)"
proof -
  let ?X = "load_data example_library (DataFrame example_table) example_config 0"
  have "case ?X of (_, _, Inr _) \<Rightarrow> True | _ \<Rightarrow> False" by code_simp
  then obtain st g' res where eq: "?X = (st, g', Inr res)"
    by (auto split: prod.splits sum.splits)
  from caller_table_rewritten [OF eq] show ?thesis by (auto simp: eq)
qed

section \<open>Shuffling in unison\<close>

lemma fisher_yates_map:
  assumes "draws_in_range R" and "i < length xs"
  shows "fisher_yates R i g (map f xs) =
           (map f (fst (fisher_yates R i g xs)), snd (fisher_yates R i g xs))"
  using assms(2)
proof (induction i arbitrary: g xs)
  case 0
  show ?case by simp
next
  case (Suc i)
  obtain j g1 where r: "R g (Suc i) = (j, g1)" by (cases "R g (Suc i)")
  with assms(1) have j: "j \<le> Suc i" by (metis draws_in_range_def fst_conv)
  let ?ys = "xs[Suc i := xs ! j, j := xs ! Suc i]"
  have sw: "(map f xs)[Suc i := map f xs ! j, j := map f xs ! Suc i] = map f ?ys"
    using Suc.prems j by (simp add: map_update)
  have "i < length ?ys" using Suc.prems by simp
  from Suc.IH [OF this, of g1] show ?case
    by (simp add: r sw)
qed

lemma fisher_yates_mset:
  assumes "draws_in_range R" and "i < length xs"
  shows "mset (fst (fisher_yates R i g xs)) = mset xs"
  using assms(2)
proof (induction i arbitrary: g xs)
  case 0
  show ?case by simp
next
  case (Suc i)
  obtain j g1 where r: "R g (Suc i) = (j, g1)" by (cases "R g (Suc i)")
  with assms(1) have j: "j \<le> Suc i" by (metis draws_in_range_def fst_conv)
  let ?ys = "xs[Suc i := xs ! j, j := xs ! Suc i]"
  have "mset ?ys = mset xs" using Suc.prems j by (simp add: mset_swap)
  moreover have "i < length ?ys" using Suc.prems by simp
  from Suc.IH [OF this, of g1] have "mset (fst (fisher_yates R i g1 ?ys)) = mset ?ys" .
  ultimately show ?case by (simp add: r)
qed

text \<open>A shuffle moves the elements as it moves their positions.\<close>

lemma np_shuffle_positions:
  assumes "draws_in_range R"
  shows "fst (np_shuffle R g xs) = map (\<lambda>i. xs ! i) (fst (np_shuffle R g [0..<length xs]))"
    and "mset (fst (np_shuffle R g xs)) = mset xs"
proof -
  show "fst (np_shuffle R g xs) = map (\<lambda>i. xs ! i) (fst (np_shuffle R g [0..<length xs]))"
  proof (cases "xs = []")
    case True
    then show ?thesis by (simp add: np_shuffle_def)
  next
    case False
    then have "length xs - 1 < length [0..<length xs]" by (cases xs) auto
    from fisher_yates_map [OF assms this, of g "\<lambda>i. xs ! i"] show ?thesis
      by (simp add: np_shuffle_def map_nth)
  qed
  show "mset (fst (np_shuffle R g xs)) = mset xs"
  proof (cases "xs = []")
    case True
    then show ?thesis by (simp add: np_shuffle_def)
  next
    case False
    then have "length xs - 1 < length xs" by (cases xs) auto
    from fisher_yates_mset [OF assms this] show ?thesis by (simp add: np_shuffle_def)
  qed
qed


text \<open>
  Claim C7. For two arrays of the same length, any generator state and any generator
  whose draws are in range, \<^verbatim>\<open>shuffle_in_unison\<close> moves both arrays by one and the same
  permutation \<open>p\<close> of the positions: element \<open>i\<close> of either array after the call is
  the element at position \<open>p ! i\<close> of that array before it. So a window and its target
  stay at the same position.
\<close>

theorem shuffle_in_unison_one_permutation:
  assumes "length a = length b" and "draws_in_range R"
    and "shuffle_in_unison R g a b = (a', b', g')"
  shows "\<exists>p. mset p = mset [0..<length a] \<and>
             a' = map (\<lambda>i. a ! i) p \<and> b' = map (\<lambda>i. b ! i) p"
proof -
  let ?p = "fst (np_shuffle R g [0..<length a])"
  from assms(3) have a': "a' = fst (np_shuffle R g a)" and b': "b' = fst (np_shuffle R g b)"
    by (auto simp: shuffle_in_unison_def Let_def split: prod.splits)
  have "mset ?p = mset [0..<length a]" using assms(2) by (rule np_shuffle_positions(2))
  moreover have "a' = map (\<lambda>i. a ! i) ?p"
    unfolding a' using assms(2) by (rule np_shuffle_positions(1))
  moreover have "b' = map (\<lambda>i. b ! i) ?p"
    unfolding b' assms(1) using assms(2) by (rule np_shuffle_positions(1))
  ultimately show ?thesis by blast
qed

theorem shuffle_in_unison_one_permutation_witness:
  "draws_in_range (random_interval example_library) \<and>
   shuffle_in_unison (random_interval example_library) 5 [10, 11, 12, 13, 14, 15 :: nat] ''abcdef''
     = ([10, 14, 12, 13, 11, 15], ''aecdbf'', 10) \<and>
   (\<exists>p. mset p = mset [0..<6] \<and>
        [10, 14, 12, 13, 11, 15 :: nat] = map (\<lambda>i. [10, 11, 12, 13, 14, 15] ! i) p \<and>
        ''aecdbf'' = map (\<lambda>i. ''abcdef'' ! i) p)"
proof -
  have d: "draws_in_range (random_interval example_library)"
    by (simp add: draws_in_range_def example_library_def)
  have s: "shuffle_in_unison (random_interval example_library) 5
             [10, 11, 12, 13, 14, 15 :: nat] ''abcdef'' = ([10, 14, 12, 13, 11, 15], ''aecdbf'', 10)"
    by code_simp
  have l: "length [10, 11, 12, 13, 14, 15 :: nat] = length ''abcdef''" by simp
  from shuffle_in_unison_one_permutation [OF l d s] obtain p where
    p: "mset p = mset [0..<length [10, 11, 12, 13, 14, 15 :: nat]]"
       "[10, 14, 12, 13, 11, 15 :: nat] = map (\<lambda>i. [10, 11, 12, 13, 14, 15] ! i) p"
       "''aecdbf'' = map (\<lambda>i. ''abcdef'' ! i) p"
    by (elim exE conjE) (rule that)
  have six: "length [10, 11, 12, 13, 14, 15 :: nat] = 6" by simp
  have "mset p = mset [0..<6]" using p(1) unfolding six .
  then have "mset p = mset [0..<6] \<and>
        [10, 14, 12, 13, 11, 15 :: nat] = map (\<lambda>i. [10, 11, 12, 13, 14, 15] ! i) p \<and>
        ''aecdbf'' = map (\<lambda>i. ''abcdef'' ! i) p"
    using p(2,3) by (intro conjI)
  then have "\<exists>p. mset p = mset [0..<6] \<and>
        [10, 14, 12, 13, 11, 15 :: nat] = map (\<lambda>i. [10, 11, 12, 13, 14, 15] ! i) p \<and>
        ''aecdbf'' = map (\<lambda>i. ''abcdef'' ! i) p" by (rule exI)
  with d s show ?thesis by (intro conjI)
qed

section \<open>The rows of a window and its target\<close>

lemma those_map_the: "those (map f xs) = Some ys \<Longrightarrow> ys = map (\<lambda>x. the (f x)) xs"
  by (induction xs arbitrary: ys) (auto split: option.splits)

lemma map_nth_positions: "map (\<lambda>r. f (pos ! r)) [0..<length pos] = map f pos"
  by (rule nth_equalityI) simp_all

text \<open>Row \<open>i\<close> of \<^verbatim>\<open>df[cs].values\<close> holds the values of the columns \<open>cs\<close> at row \<open>i\<close>.\<close>

lemma select_values_rows:
  assumes "select_values t cs = Inr rows"
  shows "rows = map (\<lambda>i. map (\<lambda>c. the (get_column t c) ! i) cs) [0..<nrows t]"
  using assms by (auto simp: select_values_def split: option.splits dest!: those_map_the)

lemma select_values_nth:
  assumes "select_values t cs = Inr rows" and "i < nrows t"
  shows "rows ! i = map (\<lambda>c. the (get_column t c) ! i) cs"
  using assms(2) by (simp add: select_values_rows [OF assms(1)])

lemma select_values_take_rows:
  assumes "select_values t cs = Inr vals" and "\<forall>i \<in> set pos. i < nrows t"
  shows "select_values (take_rows t pos) cs = Inr (map (\<lambda>i. vals ! i) pos)"
proof -
  have sub: "set cs \<subseteq> set (column_names t)"
    using assms(1) select_values_ok_iff by blast
  then obtain rows where r: "select_values (take_rows t pos) cs = Inr rows"
    using select_values_ok_iff [of "take_rows t pos" cs] by (auto simp: names_take_rows)
  have col: "the (get_column (take_rows t pos) c) = map (\<lambda>i. the (get_column t c) ! i) pos"
    if "c \<in> set cs" for c
  proof -
    from that sub obtain xs where "get_column t c = Some xs"
      using get_column_Some_iff by blast
    then show ?thesis by (simp add: get_column_take_rows)
  qed
  have "rows = map (\<lambda>r. map (\<lambda>c. the (get_column (take_rows t pos) c) ! r) cs) [0..<length pos]"
    using select_values_rows [OF r] by (simp add: nrows_take_rows)
  also have "\<dots> = map (\<lambda>r. map (\<lambda>c. the (get_column t c) ! (pos ! r)) cs) [0..<length pos]"
    by (auto simp: col)
  also have "\<dots> = map (\<lambda>i. map (\<lambda>c. the (get_column t c) ! i) cs) pos"
    by (rule map_nth_positions)
  also have "\<dots> = map (\<lambda>i. vals ! i) pos"
    using assms(2) by (auto simp: select_values_nth [OF assms(1)])
  finally show ?thesis using r by simp
qed

text \<open>The loop of lines 58-61 on a rectangular table, in closed form.\<close>

lemma sliding_windows_Inr:
  assumes "sliding_windows cfg t = Inr (sq, sd)" and "rectangular t" and "0 < n_steps cfg"
  obtains entries targets where
    "select_values t (feature_columns cfg @ [''date'']) = Inr entries"
    "get_column t ''future'' = Some targets"
    "length entries = nrows t" "length targets = nrows t"
    "sq = drop (nrows t - nat (n_steps cfg)) entries"
    "sd = map (\<lambda>k. (take (nat (n_steps cfg)) (drop k entries), targets ! (k + nat (n_steps cfg) - 1)))
             [0..<nrows t + 1 - nat (n_steps cfg)]"
proof -
  from assms(1,3) obtain entries targets where
    e: "select_values t (feature_columns cfg @ [''date'']) = Inr entries" and
    g: "get_column t ''future'' = Some targets" and
    w: "window_loop (nat (n_steps cfg)) (zip entries targets) [] [] = (sq, sd)"
    by (auto simp: sliding_windows_def split: sum.splits option.splits if_splits)
  have le: "length entries = nrows t" using e by (rule select_values_length)
  have lt: "length targets = nrows t" using assms(2) g by (rule rectangular_get_column)
  define ps where "ps = zip entries targets"
  have z: "map fst ps = entries" "map snd ps = targets" "length ps = nrows t"
    using le lt by (simp_all add: ps_def)
  from assms(3) have "0 < nat (n_steps cfg)" by simp
  then have cl: "window_loop (nat (n_steps cfg)) ps [] [] =
      (drop (length ps - nat (n_steps cfg)) (map fst ps),
       map (\<lambda>k. (take (nat (n_steps cfg)) (drop k (map fst ps)),
                  map snd ps ! (k + nat (n_steps cfg) - 1)))
           [0..<length ps + 1 - nat (n_steps cfg)])"
    by (rule window_loop_closed)
  have "window_loop (nat (n_steps cfg)) ps [] [] = (sq, sd)"
    using w by (simp only: ps_def)
  with cl have eq: "(sq, sd) =
      (drop (length ps - nat (n_steps cfg)) (map fst ps),
       map (\<lambda>k. (take (nat (n_steps cfg)) (drop k (map fst ps)),
                  map snd ps ! (k + nat (n_steps cfg) - 1)))
           [0..<length ps + 1 - nat (n_steps cfg)])"
    by (simp only:)
  have "sq = drop (length ps - nat (n_steps cfg)) (map fst ps)"
    "sd = map (\<lambda>k. (take (nat (n_steps cfg)) (drop k (map fst ps)),
                    map snd ps ! (k + nat (n_steps cfg) - 1)))
             [0..<length ps + 1 - nat (n_steps cfg)]"
    using eq by (simp_all only: prod.inject)
  then have "sq = drop (nrows t - nat (n_steps cfg)) entries"
    "sd = map (\<lambda>k. (take (nat (n_steps cfg)) (drop k entries), targets ! (k + nat (n_steps cfg) - 1)))
             [0..<nrows t + 1 - nat (n_steps cfg)]"
    unfolding z by this+
  with e g le lt show ?thesis by (rule that)
qed

text \<open>
  The windows in terms of the table \<open>df3\<close> that \<^verbatim>\<open>dropna\<close> is applied to: window \<open>k\<close> is
  the rows of \<open>df3\<close> at the \<open>n_steps\<close> kept positions from the \<open>k\<close>-th on, and its target
  is the scaled \<open>adjclose\<close> value \<open>lookup_step\<close> rows after the last of them.
\<close>

lemma prepared_windows:
  assumes p: "prepare L cfg t = (t', Inr (sc, lr))" and rect: "rectangular t"
    and w: "sliding_windows cfg t' = Inr (sq, sd)" and n: "0 < n_steps cfg"
  obtains df2 df3 adjclose vals where
    "scale_features L cfg (add_date t) = (df2, Inr sc)"
    "add_future cfg df2 = Inr df3"
    "t' = dropna df3"
    "get_column df2 ''adjclose'' = Some adjclose"
    "select_values df3 (feature_columns cfg @ [''date'']) = Inr vals"
    "nrows df3 = nrows t" "length adjclose = nrows t"
    "length sd = length (kept_rows df3) + 1 - nat (n_steps cfg)"
    "\<forall>k < length sd.
       fst (sd ! k) = map (\<lambda>i. vals ! i) (take (nat (n_steps cfg)) (drop k (kept_rows df3))) \<and>
       snd (sd ! k) =
         adjclose ! nat (int (kept_rows df3 ! (k + nat (n_steps cfg) - 1)) + lookup_step cfg) \<and>
       0 \<le> int (kept_rows df3 ! (k + nat (n_steps cfg) - 1)) + lookup_step cfg \<and>
       int (kept_rows df3 ! (k + nat (n_steps cfg) - 1)) + lookup_step cfg < int (nrows t)"
proof -
  let ?n = "nat (n_steps cfg)"
  from p obtain df2 df3 rows where
    s: "scale_features L cfg (add_date t) = (df2, Inr sc)" and
    f: "add_future cfg df2 = Inr df3" and
    t': "t' = dropna df3"
    by (rule prepare_Inr)
  let ?kept = "kept_rows df3"
  have rect2: "rectangular df2" and idx2: "index df2 = index t"
    using s rect by (rule prepare_rectangular_stages)+
  have rect3: "rectangular df3" using f rect2 by (rule add_future_facts(3))
  have n3: "nrows df3 = nrows t"
    using add_future_facts(2) [OF f] idx2 by (simp add: nrows_def)
  have kept_lt: "\<forall>i \<in> set ?kept. i < nrows df3"
    using kept_rows_facts by blast
  have tk: "t' = take_rows df3 ?kept" by (simp add: t' dropna_def)
  have rect': "rectangular t'" by (simp add: tk rectangular_take_rows)
  have m: "nrows t' = length ?kept" by (simp add: tk nrows_take_rows)
  from w rect' n obtain entries targets where
    e: "select_values t' (feature_columns cfg @ [''date'']) = Inr entries" and
    g: "get_column t' ''future'' = Some targets" and
    sd: "sd = map (\<lambda>k. (take ?n (drop k entries), targets ! (k + ?n - 1)))
                 [0..<nrows t' + 1 - ?n]"
    by (rule sliding_windows_Inr)
  from f obtain adjclose where
    a: "get_column df2 ''adjclose'' = Some adjclose" and
    fut: "get_column df3 ''future'' = Some (shift (- lookup_step cfg) adjclose)"
    by (auto simp: add_future_def get_column_set_column split: option.splits)
  have la: "length adjclose = nrows t"
    using rectangular_get_column [OF rect2 a] idx2 by (simp add: nrows_def)
  have "set (feature_columns cfg @ [''date'']) \<subseteq> set (column_names df3)"
    using e select_values_ok_iff [of t' "feature_columns cfg @ [''date'']"]
    by (auto simp: tk names_take_rows)
  then obtain vals where
    v: "select_values df3 (feature_columns cfg @ [''date'']) = Inr vals"
    using select_values_ok_iff [of df3 "feature_columns cfg @ [''date'']"] by blast
  have ent: "entries = map (\<lambda>i. vals ! i) ?kept"
    using select_values_take_rows [OF v kept_lt] e by (simp add: tk)
  have tg: "targets = map (\<lambda>i. shift (- lookup_step cfg) adjclose ! i) ?kept"
    using g fut by (simp add: tk get_column_take_rows)
  have len: "length sd = length ?kept + 1 - ?n" by (simp add: sd m)
  have pair: "fst (sd ! k) = map (\<lambda>i. vals ! i) (take ?n (drop k ?kept)) \<and>
       snd (sd ! k) = adjclose ! nat (int (?kept ! (k + ?n - 1)) + lookup_step cfg) \<and>
       0 \<le> int (?kept ! (k + ?n - 1)) + lookup_step cfg \<and>
       int (?kept ! (k + ?n - 1)) + lookup_step cfg < int (nrows t)"
    if k: "k < length sd" for k
  proof -
    from k len n have kn: "k + ?n - 1 < length ?kept" by auto
    then have mem: "?kept ! (k + ?n - 1) \<in> set ?kept" by simp
    from k len have "k < nrows t' + 1 - ?n" by (simp add: m)
    then have sdk: "sd ! k = (take ?n (drop k entries), targets ! (k + ?n - 1))"
      by (simp add: sd del: upt_Suc)
    have win: "fst (sd ! k) = map (\<lambda>i. vals ! i) (take ?n (drop k ?kept))"
      by (simp add: sdk ent take_map drop_map)
    have "snd (sd ! k) = shift (- lookup_step cfg) adjclose ! (?kept ! (k + ?n - 1))"
      using kn by (simp add: sdk tg)
    moreover
    from f rect2 mem have
      "shift (- lookup_step cfg) adjclose ! (?kept ! (k + ?n - 1)) =
         adjclose ! nat (int (?kept ! (k + ?n - 1)) + lookup_step cfg) \<and>
       0 \<le> int (?kept ! (k + ?n - 1)) + lookup_step cfg \<and>
       int (?kept ! (k + ?n - 1)) + lookup_step cfg < int (nrows t)"
    proof (rule kept_row_future)
      fix adj
      assume "get_column df2 ''adjclose'' = Some adj"
        and "shift (- lookup_step cfg) adj ! (?kept ! (k + ?n - 1)) =
               adj ! nat (int (?kept ! (k + ?n - 1)) + lookup_step cfg)"
        and "0 \<le> int (?kept ! (k + ?n - 1)) + lookup_step cfg"
        and "int (?kept ! (k + ?n - 1)) + lookup_step cfg < int (nrows df3)"
      with a n3 show ?thesis by simp
    qed
    ultimately show ?thesis using win by simp
  qed
  from pair have "\<forall>k < length sd.
       fst (sd ! k) = map (\<lambda>i. vals ! i) (take ?n (drop k ?kept)) \<and>
       snd (sd ! k) = adjclose ! nat (int (?kept ! (k + ?n - 1)) + lookup_step cfg) \<and>
       0 \<le> int (?kept ! (k + ?n - 1)) + lookup_step cfg \<and>
       int (?kept ! (k + ?n - 1)) + lookup_step cfg < int (nrows t)"
    by blast
  with s f t' a v n3 la len show ?thesis by (rule that)
qed

text \<open>
  Claim C2. Take a rectangular table on which lines 40-53 run to the end, and a window
  of at least one row. Then the loop emits its pairs without raising, and for every
  pair \<open>k\<close>: the window is the rows, in the table \<open>df3\<close> before \<^verbatim>\<open>dropna\<close>, at \<open>n_steps\<close>
  consecutive kept positions; with \<open>i\<close> the position of the last of these rows, row
  \<open>i + lookup_step\<close> exists, and the target is the value of the scaled column
  \<open>adjclose\<close> at row \<open>i + lookup_step\<close>: \<open>lookup_step\<close> rows after the last row of
  the window, not after its first.
\<close>

theorem target_after_last_row:
  assumes "rectangular t" and "prepare L cfg t = (t', Inr (sc, lr))" and "0 < n_steps cfg"
  shows "\<exists>sq sd df2 df3 adjclose vals.
      sliding_windows cfg t' = Inr (sq, sd) \<and>
      scale_features L cfg (add_date t) = (df2, Inr sc) \<and>
      get_column df2 ''adjclose'' = Some adjclose \<and>
      add_future cfg df2 = Inr df3 \<and> t' = dropna df3 \<and>
      select_values df3 (feature_columns cfg @ [''date'']) = Inr vals \<and>
      (\<forall>k < length sd.
         let rows = take (nat (n_steps cfg)) (drop k (kept_rows df3)); i = last rows
         in fst (sd ! k) = map (\<lambda>j. vals ! j) rows \<and>
            0 \<le> int i + lookup_step cfg \<and> int i + lookup_step cfg < int (nrows t) \<and>
            snd (sd ! k) = adjclose ! nat (int i + lookup_step cfg))"
proof -
  let ?n = "nat (n_steps cfg)"
  from assms(2,3) obtain sq sd where w: "sliding_windows cfg t' = Inr (sq, sd)"
    using sliding_windows_after_prepare [of L cfg t t' sc lr] by auto
  from assms(2,1) w assms(3) obtain df2 df3 adjclose vals where
    s: "scale_features L cfg (add_date t) = (df2, Inr sc)" and
    f: "add_future cfg df2 = Inr df3" and
    t': "t' = dropna df3" and
    a: "get_column df2 ''adjclose'' = Some adjclose" and
    v: "select_values df3 (feature_columns cfg @ [''date'']) = Inr vals" and
    "nrows df3 = nrows t" "length adjclose = nrows t" and
    len: "length sd = length (kept_rows df3) + 1 - ?n" and
    pair: "\<forall>k < length sd.
       fst (sd ! k) = map (\<lambda>i. vals ! i) (take ?n (drop k (kept_rows df3))) \<and>
       snd (sd ! k) = adjclose ! nat (int (kept_rows df3 ! (k + ?n - 1)) + lookup_step cfg) \<and>
       0 \<le> int (kept_rows df3 ! (k + ?n - 1)) + lookup_step cfg \<and>
       int (kept_rows df3 ! (k + ?n - 1)) + lookup_step cfg < int (nrows t)"
    by (rule prepared_windows)
  have "let rows = take ?n (drop k (kept_rows df3)); i = last rows
         in fst (sd ! k) = map (\<lambda>j. vals ! j) rows \<and>
            0 \<le> int i + lookup_step cfg \<and> int i + lookup_step cfg < int (nrows t) \<and>
            snd (sd ! k) = adjclose ! nat (int i + lookup_step cfg)"
    if k: "k < length sd" for k
  proof -
    let ?rows = "take ?n (drop k (kept_rows df3))"
    from k len assms(3) have kn: "k + ?n \<le> length (kept_rows df3)" "0 < ?n" by auto
    then have l: "length ?rows = ?n" by simp
    with kn have ne: "?rows \<noteq> []" by auto
    have "last ?rows = ?rows ! (length ?rows - 1)" using ne by (rule last_conv_nth)
    also have "\<dots> = ?rows ! (?n - 1)" by (simp only: l)
    also have "\<dots> = drop k (kept_rows df3) ! (?n - 1)" using kn(2) by (intro nth_take) simp
    also have "\<dots> = kept_rows df3 ! (k + (?n - 1))" using kn by (intro nth_drop) simp
    also have "k + (?n - 1) = k + ?n - 1" using kn(2) by simp
    finally show ?thesis using pair k by (simp add: Let_def)
  qed
  with w s a f t' v show ?thesis by blast
qed

theorem target_after_last_row_witness:
  "rectangular example_table \<and> 0 < n_steps example_config \<and>
   (\<exists>t' sc lr sq sd adjclose.
      prepare example_library example_config example_table = (t', Inr (sc, lr)) \<and>
      sliding_windows example_config t' = Inr (sq, sd) \<and>
      get_column (fst (scale_features example_library example_config (add_date example_table)))
        ''adjclose'' = Some adjclose \<and>
      adjclose = [Num 0, Num (1 / 5), Num (2 / 5), Num (3 / 5), Num (4 / 5), Num 1] \<and>
      sd ! 0 = ([[Num 0, Stamp 10], [Num (1 / 5), Stamp 11]], Num (2 / 5)) \<and>
      snd (sd ! 0) = adjclose ! nat (int (last (take 2 (drop 0 [0, 1, 2, 3, 4 :: nat]))) + 1))"
proof -
  let ?L = example_library and ?C = example_config and ?T = example_table
  let ?df2 = "fst (scale_features ?L ?C (add_date ?T))"
  let ?df3 = "\<lparr>index = [10, 11, 12, 13, 14, 15 :: nat],
      columns = [(''adjclose'', [Num 0, Num (1 / 5), Num (2 / 5), Num (3 / 5), Num (4 / 5), Num (1 :: rat)]),
                 (''date'', [Stamp 10, Stamp 11, Stamp 12, Stamp 13, Stamp 14, Stamp 15]),
                 (''future'', [Num (1 / 5), Num (2 / 5), Num (3 / 5), Num (4 / 5), Num 1, NaN])]\<rparr>"
  have r: "rectangular ?T" by code_simp
  have n: "0 < n_steps ?C" by (simp add: example_config_def)
  have "case prepare ?L ?C ?T of (t', Inr _) \<Rightarrow> True | _ \<Rightarrow> False" by code_simp
  then obtain t' sc lr where p: "prepare ?L ?C ?T = (t', Inr (sc, lr))"
    by (auto split: prod.splits sum.splits)
  from target_after_last_row [OF r p n] obtain sq sd df2 df3 adjclose vals where
    w: "sliding_windows ?C t' = Inr (sq, sd)" and
    s: "scale_features ?L ?C (add_date ?T) = (df2, Inr sc)" and
    a: "get_column df2 ''adjclose'' = Some adjclose" and
    f: "add_future ?C df2 = Inr df3" and t': "t' = dropna df3" and
    all: "\<forall>k < length sd.
         let rows = take (nat (n_steps ?C)) (drop k (kept_rows df3)); i = last rows
         in fst (sd ! k) = map (\<lambda>j. vals ! j) rows \<and>
            0 \<le> int i + lookup_step ?C \<and> int i + lookup_step ?C < int (nrows ?T) \<and>
            snd (sd ! k) = adjclose ! nat (int i + lookup_step ?C)"
    by (elim exE conjE) (rule that)
  from s have df2: "df2 = ?df2" by simp
  have "add_future ?C ?df2 = Inr ?df3" by code_simp
  with f df2 have df3: "df3 = ?df3" by simp
  have kept: "kept_rows ?df3 = [0, 1, 2, 3, 4]" by code_simp
  have adj: "get_column ?df2 ''adjclose'' =
        Some [Num 0, Num (1 / 5), Num (2 / 5), Num (3 / 5), Num (4 / 5), Num 1]"
    by code_simp
  with a df2 have adjclose: "adjclose = [Num 0, Num (1 / 5), Num (2 / 5), Num (3 / 5), Num (4 / 5), Num 1]"
    by simp
  have "case sliding_windows ?C (dropna ?df3) of
          Inr (_, sd) \<Rightarrow> length sd = 4 \<and>
             sd ! 0 = ([[Num 0, Stamp 10], [Num (1 / 5), Stamp 11]], Num (2 / 5))
        | _ \<Rightarrow> False"
    by code_simp
  with w t' df3 have sd: "length sd = 4"
    "sd ! 0 = ([[Num 0, Stamp 10], [Num (1 / 5), Stamp 11]], Num (2 / 5))"
    by auto
  from all sd(1) have "let rows = take (nat (n_steps ?C)) (drop 0 (kept_rows df3)); i = last rows
         in snd (sd ! 0) = adjclose ! nat (int i + lookup_step ?C)"
    by (auto simp: Let_def)
  then have tgt: "snd (sd ! 0) = adjclose ! nat (int (last (take 2 (drop 0 [0, 1, 2, 3, 4 :: nat]))) + 1)"
    by (simp add: Let_def df3 kept example_config_def)
  from p w a adjclose sd(2) tgt have
    "prepare ?L ?C ?T = (t', Inr (sc, lr)) \<and>
      sliding_windows ?C t' = Inr (sq, sd) \<and>
      get_column ?df2 ''adjclose'' = Some adjclose \<and>
      adjclose = [Num 0, Num (1 / 5), Num (2 / 5), Num (3 / 5), Num (4 / 5), Num 1] \<and>
      sd ! 0 = ([[Num 0, Stamp 10], [Num (1 / 5), Stamp 11]], Num (2 / 5)) \<and>
      snd (sd ! 0) = adjclose ! nat (int (last (take 2 (drop 0 [0, 1, 2, 3, 4 :: nat]))) + 1)"
    unfolding df2 by (intro conjI)
  then have "\<exists>t' sc lr sq sd adjclose.
      prepare ?L ?C ?T = (t', Inr (sc, lr)) \<and>
      sliding_windows ?C t' = Inr (sq, sd) \<and>
      get_column ?df2 ''adjclose'' = Some adjclose \<and>
      adjclose = [Num 0, Num (1 / 5), Num (2 / 5), Num (3 / 5), Num (4 / 5), Num 1] \<and>
      sd ! 0 = ([[Num 0, Stamp 10], [Num (1 / 5), Stamp 11]], Num (2 / 5)) \<and>
      snd (sd ! 0) = adjclose ! nat (int (last (take 2 (drop 0 [0, 1, 2, 3, 4 :: nat]))) + 1)"
    by (intro exI)
  with r n show ?thesis by (intro conjI)
qed

section \<open>The chronological split\<close>















section \<open>Calls that return\<close>

















section \<open>The sizes of the chronological split\<close>







end
